(* ===== verification/Go_Prog.thy ===== *)
theory Go_Prog
  imports Main "HOL-Library.Multiset" "HOL-Library.Sublist"
begin

text \<open>
  The prelude of the development: what a Go function does, as a HOL value.

  A Go function body is a \<open>prog\<close>: it returns a value, panics, gives up because a loop bound
  of the model is spent, or makes one atomic step on the state and goes on. A step may be
  disabled in the current state, which is how a blocked channel operation or a wait that is
  not over appears. \<open>run\<close> executes a program alone, \<open>par\<close> executes several
  goroutines under a schedule until all of them are finished (a \<open>sync.WaitGroup\<close>), and
  \<open>calls_in\<close> is the effect system: which steps a program can ever make.
  The collection \<open>go_run\<close> holds the equations that execute a program by simplification,
  the collection \<open>go_calls\<close> the introduction rules of the effect system, the collection
  \<open>go_returns\<close> those of \<open>returns\<close> (a program that always returns).
\<close>

named_theorems go_run
named_theorems go_calls
named_theorems go_returns

section \<open>Programs\<close>

text \<open>The run-time panics of Go that the repository's code can raise.\<close>

datatype go_panic =
    NilDereference
  | IndexOutOfRange
  | NilMapWrite
  | CloseOfClosedChannel
  | SendOnClosedChannel
  | NegativeWaitGroup

datatype ('s, 'a) prog =
    Ret 'a
  | Panic go_panic
  | NoFuel
  | Act "'s \<Rightarrow> ('s \<times> ('s, 'a) prog) option"

datatype 'a outcome =
    Done 'a
  | Panicked go_panic
  | Stuck
  | OutOfFuel

primrec bind_go :: "('s, 'a) prog \<Rightarrow> ('a \<Rightarrow> ('s, 'b) prog) \<Rightarrow> ('s, 'b) prog" where
  "bind_go (Ret x) f = f x"
| "bind_go (Panic e) f = Panic e"
| "bind_go NoFuel f = NoFuel"
| "bind_go (Act a) f = Act (map_option (map_prod id (\<lambda>p. bind_go p f)) \<circ> a)"

text \<open>Execution of one goroutine alone.\<close>

primrec run :: "('s, 'a) prog \<Rightarrow> 's \<Rightarrow> 'a outcome \<times> 's" where
  "run (Ret x) = (\<lambda>s. (Done x, s))"
| "run (Panic e) = (\<lambda>s. (Panicked e, s))"
| "run NoFuel = (\<lambda>s. (OutOfFuel, s))"
| "run (Act a) =
     (\<lambda>s. case (map_option (map_prod id run) \<circ> a) s of
             None \<Rightarrow> (Stuck, s)
           | Some (s', r) \<Rightarrow> r s')"

definition after :: "'a outcome \<times> 's \<Rightarrow> ('a \<Rightarrow> 's \<Rightarrow> 'b outcome \<times> 's) \<Rightarrow> 'b outcome \<times> 's" where
  "after r k =
     (case r of
        (Done x, s) \<Rightarrow> k x s
      | (Panicked e, s) \<Rightarrow> (Panicked e, s)
      | (Stuck, s) \<Rightarrow> (Stuck, s)
      | (OutOfFuel, s) \<Rightarrow> (OutOfFuel, s))"

text \<open>The operations a Go body is written with.\<close>

definition step :: "('s \<Rightarrow> 's) \<Rightarrow> ('s \<Rightarrow> 'a) \<Rightarrow> ('s, 'a) prog" where
  "step u f = Act (\<lambda>s. Some (u s, Ret (f s)))"

definition block :: "('s, 'a) prog" where
  "block = Act (\<lambda>_. None)"

definition deref :: "'a option \<Rightarrow> ('s, 'a) prog" where
  "deref p = (case p of None \<Rightarrow> Panic NilDereference | Some x \<Rightarrow> Ret x)"

definition index :: "'a list \<Rightarrow> int \<Rightarrow> ('s, 'a) prog" where
  "index xs i =
     (if 0 \<le> i \<and> i < int (length xs) then Ret (xs ! nat i) else Panic IndexOutOfRange)"

primrec for_each :: "('a \<Rightarrow> ('s, unit) prog) \<Rightarrow> 'a list \<Rightarrow> ('s, unit) prog" where
  "for_each f [] = Ret ()"
| "for_each f (x # xs) = bind_go (f x) (\<lambda>_. for_each f xs)"

section \<open>Goroutines joined by a wait group\<close>

text \<open>
  \<open>par is ts\<close> runs the goroutines \<open>ts\<close>, letting the goroutine named by each index of
  the schedule make one step, and, once the schedule is used up, the remaining ones in order.
  A pick of a finished, missing or blocked goroutine changes nothing. A panic of any goroutine
  ends the process.
\<close>

fun par :: "nat list \<Rightarrow> ('s, unit) prog list \<Rightarrow> ('s, unit) prog" where
  "par [] ts = for_each (\<lambda>t. t) ts"
| "par (i # is) ts =
     (if i < length ts then
        (case ts ! i of
           Ret _ \<Rightarrow> par is ts
         | Panic e \<Rightarrow> Panic e
         | NoFuel \<Rightarrow> NoFuel
         | Act a \<Rightarrow>
             Act (\<lambda>s. case a s of
                        None \<Rightarrow> Some (s, par is ts)
                      | Some (s', t) \<Rightarrow> Some (s', par is (ts[i := t]))))
      else par is ts)"

text \<open>
  All interleavings, as a relation: the goroutines reach a point where each has returned.
\<close>

inductive interleaves :: "('s, unit) prog list \<Rightarrow> 's \<Rightarrow> 's \<Rightarrow> bool" where
  joined: "list_all (\<lambda>t. t = Ret ()) ts \<Longrightarrow> interleaves ts s s"
| switch: "i < length ts \<Longrightarrow> ts ! i = Act a \<Longrightarrow> a s = Some (s', t) \<Longrightarrow>
     interleaves (ts[i := t]) s' s'' \<Longrightarrow> interleaves ts s s''"

section \<open>The effect system\<close>

text \<open>
  \<open>guar R p\<close>: whatever the other goroutines do in between, every step that \<open>p\<close>
  makes goes from a state to an \<open>R\<close>-related one (the guarantee of rely-guarantee proofs).
\<close>

inductive guar :: "('s \<Rightarrow> 's \<Rightarrow> bool) \<Rightarrow> ('s, 'a) prog \<Rightarrow> bool" for R where
  guar_Ret: "guar R (Ret x)"
| guar_Panic: "guar R (Panic e)"
| guar_NoFuel: "guar R NoFuel"
| guar_Act: "(\<And>s s' q. a s = Some (s', q) \<Longrightarrow> R s s' \<and> guar R q) \<Longrightarrow> guar R (Act a)"

inductive_simps guar_Act_iff: "guar R (Act a)"

text \<open>
  \<open>returns p\<close>: whatever the other goroutines do, \<open>p\<close> neither panics nor blocks nor
  runs out of a loop bound.
\<close>

inductive returns :: "('s, 'a) prog \<Rightarrow> bool" where
  returns_Ret: "returns (Ret x)"
| returns_Act: "(\<And>s. \<exists>s' q. a s = Some (s', q) \<and> returns q) \<Longrightarrow> returns (Act a)"

inductive_simps returns_simps:
  "returns (Ret x)" "returns (Panic e)" "returns NoFuel" "returns (Act a)"

section \<open>Transition systems\<close>

text \<open>
  The contract shared by the state machines of the development: an invariant of the start
  states that every step keeps holds in every reachable state.
\<close>

inductive reachable_from :: "('s \<Rightarrow> bool) \<Rightarrow> ('s \<Rightarrow> 's \<Rightarrow> bool) \<Rightarrow> 's \<Rightarrow> bool" for init trans where
  reach_start: "init s \<Longrightarrow> reachable_from init trans s"
| reach_step: "reachable_from init trans s \<Longrightarrow> trans s t \<Longrightarrow> reachable_from init trans t"

locale inductive_invariant =
  fixes init :: "'s \<Rightarrow> bool"
    and trans :: "'s \<Rightarrow> 's \<Rightarrow> bool"
    and invar :: "'s \<Rightarrow> bool"
  assumes invar_init: "init s \<Longrightarrow> invar s"
    and invar_trans: "invar s \<Longrightarrow> trans s t \<Longrightarrow> invar t"
begin

lemma invar_reachable: "reachable_from init trans s \<Longrightarrow> invar s"
  by (induction rule: reachable_from.induct) (auto intro: invar_init invar_trans)

lemma invar_rtranclp: "trans\<^sup>*\<^sup>* s t \<Longrightarrow> invar s \<Longrightarrow> invar t"
  by (induction rule: rtranclp_induct) (auto intro: invar_trans)

end

text \<open>
  A machine of goroutines is given by a step function: the choice says which goroutine moves (and
  which case of a \<open>select\<close> it takes), \<open>None\<close> that it cannot. \<open>run_machine\<close> executes a list of choices,
  passing over those that are not possible; \<open>steps_machine\<close> insists on each of them.
\<close>

primrec run_machine :: "('c \<Rightarrow> 's \<Rightarrow> 's option) \<Rightarrow> 'c list \<Rightarrow> 's \<Rightarrow> 's" where
  "run_machine move [] s = s"
| "run_machine move (c # cs) s = run_machine move cs (case move c s of None \<Rightarrow> s | Some s' \<Rightarrow> s')"

primrec steps_machine :: "('c \<Rightarrow> 's \<Rightarrow> 's option) \<Rightarrow> 'c list \<Rightarrow> 's \<Rightarrow> 's option" where
  "steps_machine move [] s = Some s"
| "steps_machine move (c # cs) s = (case move c s of None \<Rightarrow> None | Some s' \<Rightarrow> steps_machine move cs s')"

lemma run_machine_append: "run_machine move (cs @ ds) s = run_machine move ds (run_machine move cs s)"
  by (induction cs arbitrary: s) simp_all

text \<open>
  An infinite schedule names a choice for every step number. It is weakly fair when no choice
  stays possible for ever without being made.
\<close>

definition after_steps :: "('c \<Rightarrow> 's \<Rightarrow> 's option) \<Rightarrow> (nat \<Rightarrow> 'c) \<Rightarrow> 's \<Rightarrow> nat \<Rightarrow> 's" where
  "after_steps move \<sigma> s n = run_machine move (map \<sigma> [0..<n]) s"

definition weakly_fair :: "('c \<Rightarrow> 's \<Rightarrow> 's option) \<Rightarrow> (nat \<Rightarrow> 'c) \<Rightarrow> 's \<Rightarrow> bool" where
  "weakly_fair move \<sigma> s \<longleftrightarrow> (\<forall>c i. \<exists>j\<ge>i. \<sigma> j = c \<or> move c (after_steps move \<sigma> s j) = None)"

lemma after_steps_simps [simp]:
  "after_steps move \<sigma> s 0 = s"
  "after_steps move \<sigma> s (Suc n) =
     (case move (\<sigma> n) (after_steps move \<sigma> s n) of None \<Rightarrow> after_steps move \<sigma> s n | Some t \<Rightarrow> t)"
  by (simp_all add: after_steps_def run_machine_append split: option.split)

lemma after_steps_idle:
  assumes "\<forall>i. m \<le> i \<and> i < n \<longrightarrow> move (\<sigma> i) (after_steps move \<sigma> s i) = None" and "m \<le> n"
  shows "after_steps move \<sigma> s n = after_steps move \<sigma> s m"
  using assms(2,1)
proof (induction n rule: dec_induct)
  case (step n)
  have "move (\<sigma> n) (after_steps move \<sigma> s n) = None" using step.prems step.hyps(1) by simp
  with step show ?case by simp
qed simp

lemma weakly_fair_moves:
  assumes "weakly_fair move \<sigma> s" and "move c (after_steps move \<sigma> s m) \<noteq> None"
  shows "\<exists>n t. m \<le> n \<and> move (\<sigma> n) (after_steps move \<sigma> s m) = Some t \<and> after_steps move \<sigma> s (Suc n) = t"
proof -
  let ?at = "after_steps move \<sigma> s"
  let ?P = "\<lambda>n. m \<le> n \<and> move (\<sigma> n) (?at n) \<noteq> None"
  have "\<exists>n. ?P n"
  proof (rule ccontr)
    assume "\<nexists>n. ?P n"
    then have none: "\<forall>i. m \<le> i \<longrightarrow> move (\<sigma> i) (?at i) = None" by blast
    obtain j where j: "m \<le> j" "\<sigma> j = c \<or> move c (?at j) = None"
      using assms(1) unfolding weakly_fair_def by blast
    have "?at j = ?at m" using none j(1) by (intro after_steps_idle) simp_all
    then show False using j none assms(2) by metis
  qed
  then have least: "?P (LEAST n. ?P n)" by (rule LeastI_ex)
  have "?at (LEAST n. ?P n) = ?at m"
    using least not_less_Least [of _ ?P] by (intro after_steps_idle) blast+
  then show ?thesis using least by (intro exI [of _ "LEAST n. ?P n"]) auto
qed

text \<open>A rank that never grows and shrinks whenever the choice \<open>c\<close> is made: \<open>c\<close> is not made for ever.\<close>

lemma fair_descent:
  fixes f :: "nat \<Rightarrow> 'x"
  assumes "wf R" and "\<forall>i. \<exists>j\<ge>i. \<sigma> j = c"
    and same: "\<And>n. (f (Suc n), f n) \<in> R \<or> f (Suc n) = f n" and less: "\<And>n. \<sigma> n = c \<Longrightarrow> (f (Suc n), f n) \<in> R"
  shows False
proof -
  obtain z where z: "z \<in> range f" "\<And>y. (y, z) \<in> R \<Longrightarrow> y \<notin> range f"
    using wfE_min [OF assms(1) rangeI [of f 0]] by metis
  then obtain n where n: "z = f n" by (elim rangeE)
  have least: "(f i, f n) \<notin> R" for i
  proof
    assume "(f i, f n) \<in> R"
    then have "f i \<notin> range f" unfolding n [symmetric] by (rule z(2))
    then show False by simp
  qed
  have const: "f (n + k) = f n" for k
  proof (induction k)
    case (Suc k)
    then show ?case using same [of "n + k"] least [of "Suc (n + k)"] by simp
  qed simp
  obtain j where j: "n \<le> j" "\<sigma> j = c" using assms(2) by blast
  then have "f j = f n" using const [of "j - n"] by simp
  with less [OF j(2)] least show False by metis
qed

locale machine =
  fixes move :: "'c \<Rightarrow> 's \<Rightarrow> 's option"
    and trans :: "'s \<Rightarrow> 's \<Rightarrow> bool"
  assumes trans_iff: "trans s t \<longleftrightarrow> (\<exists>c. move c s = Some t)"
begin

lemma run_reachable: "trans\<^sup>*\<^sup>* s (run_machine move cs s)"
proof (induction cs arbitrary: s)
  case (Cons c cs)
  show ?case
  proof (cases "move c s")
    case (Some t)
    then have "trans s t" by (auto simp: trans_iff)
    with Cons.IH [of t] Some show ?thesis by (simp add: converse_rtranclp_into_rtranclp)
  qed (use Cons.IH in simp)
qed simp

lemma steps_run: "steps_machine move cs s = Some t \<Longrightarrow> run_machine move cs s = t"
  by (induction cs arbitrary: s) (auto split: option.splits)

lemma steps_reachable: "steps_machine move cs s = Some t \<Longrightarrow> trans\<^sup>*\<^sup>* s t"
  using run_reachable [of s cs] steps_run by simp

lemma fair_halts:
  assumes "wf {(t, s). trans s t}" and "weakly_fair move \<sigma> s"
  shows "\<exists>n. \<forall>c. move c (after_steps move \<sigma> s n) = None"
proof -
  have "\<forall>m. after_steps move \<sigma> s m = x \<longrightarrow> (\<exists>n. \<forall>c. move c (after_steps move \<sigma> s n) = None)" for x
    using assms(1)
  proof (induction x rule: wf_induct_rule)
    case (less x)
    show ?case
    proof (intro allI impI)
      fix m assume m: "after_steps move \<sigma> s m = x"
      show "\<exists>n. \<forall>c. move c (after_steps move \<sigma> s n) = None"
      proof (cases "\<exists>c. move c x \<noteq> None")
        case True
        then obtain c where "move c (after_steps move \<sigma> s m) \<noteq> None" unfolding m by blast
        from weakly_fair_moves [OF assms(2) this] obtain n t
          where t: "move (\<sigma> n) x = Some t" "after_steps move \<sigma> s (Suc n) = t" unfolding m by blast
        then have "(t, x) \<in> {(t, s). trans s t}" by (auto simp: trans_iff)
        from less.IH [OF this] t(2) show ?thesis by blast
      qed (use m in blast)
    qed
  qed
  then show ?thesis by blast
qed

lemma reachable_steps: "trans\<^sup>*\<^sup>* s t \<Longrightarrow> \<exists>cs. steps_machine move cs s = Some t"
proof (induction rule: converse_rtranclp_induct)
  case base
  show ?case by (intro exI [of _ "[]"]) simp
next
  case (step s u)
  then obtain c cs where "move c s = Some u" and "steps_machine move cs u = Some t" by (auto simp: trans_iff)
  then show ?case by (intro exI [of _ "c # cs"]) simp
qed

end

section \<open>Executing programs\<close>

lemma prog_induct [case_names Ret Panic NoFuel Act, induct type: prog]:
  fixes P :: "('s, 'a) prog \<Rightarrow> bool"
  assumes "\<And>x. P (Ret x)" and "\<And>e. P (Panic e)" and "P NoFuel"
    and act: "\<And>a. (\<And>s s' q. a s = Some (s', q) \<Longrightarrow> P q) \<Longrightarrow> P (Act a)"
  shows "P p"
proof (rule prog.induct [of P])
  fix a :: "'s \<Rightarrow> ('s \<times> ('s, 'a) prog) option"
  assume "\<And>x y z. x \<in> range a \<Longrightarrow> y \<in> set_option x \<Longrightarrow> z \<in> Basic_BNFs.snds y \<Longrightarrow> P z"
  then have "P q" if "a s = Some (s', q)" for s s' q
    using that [symmetric] by (force simp: prod_set_defs)
  then show "P (Act a)" by (rule act)
qed (fact assms)+

lemma run_Act [go_run]:
  "run (Act a) s = (case a s of None \<Rightarrow> (Stuck, s) | Some (s', p) \<Rightarrow> run p s')"
  by (auto split: option.splits prod.splits)

declare run.simps(4) [simp del]

lemmas run_base [go_run] = run.simps(1-3)

lemma run_step [go_run, simp]: "run (step u f) s = (Done (f s), u s)"
  by (simp add: step_def run_Act)

lemma run_block [go_run, simp]: "run block s = (Stuck, s)"
  by (simp add: block_def run_Act)

lemma after_simps [go_run, simp]:
  "after (Done x, s) k = k x s"
  "after (Panicked e, s) k = (Panicked e, s)"
  "after (Stuck, s) k = (Stuck, s)"
  "after (OutOfFuel, s) k = (OutOfFuel, s)"
  by (simp_all add: after_def)

lemma run_bind [go_run, simp]: "run (bind_go p f) s = after (run p s) (\<lambda>x. run (f x))"
proof (induction p arbitrary: s)
  case (Act a)
  then show ?case by (cases "a s") (auto simp: run_Act)
qed simp_all

lemma run_deref [go_run, simp]:
  "run (deref None) s = (Panicked NilDereference, s)"
  "run (deref (Some x)) s = (Done x, s)"
  by (simp_all add: deref_def)

lemma run_index [go_run]:
  "run (index xs i) s =
     (if 0 \<le> i \<and> i < int (length xs) then (Done (xs ! nat i), s) else (Panicked IndexOutOfRange, s))"
  by (simp add: index_def)

lemma after_Done_iff:
  "after r k = (Done y, s') \<longleftrightarrow> (\<exists>x s. r = (Done x, s) \<and> k x s = (Done y, s'))"
  by (auto simp: after_def split: prod.splits outcome.splits)

lemma after_DoneE:
  assumes "after r k = (Done y, s')"
  obtains x s where "r = (Done x, s)" and "k x s = (Done y, s')"
  using assms by (auto simp: after_Done_iff)

lemma bind_go_Ret [simp]: "bind_go p Ret = p"
proof (induction p)
  case (Act a)
  have "map_option (map_prod id (\<lambda>p. bind_go p Ret)) (a s) = a s" for s
    using Act by (cases "a s") auto
  then show ?case by (simp add: comp_def)
qed simp_all

lemma bind_go_assoc: "bind_go (bind_go p f) g = bind_go p (\<lambda>x. bind_go (f x) g)"
proof (induction p)
  case (Act a)
  have "(map_option (map_prod id (\<lambda>p. bind_go p g)) \<circ> (map_option (map_prod id (\<lambda>p. bind_go p f)) \<circ> a)) s
      = (map_option (map_prod id (\<lambda>p. bind_go p (\<lambda>x. bind_go (f x) g))) \<circ> a) s" for s
    using Act by (cases "a s") auto
  then show ?case by (simp add: comp_def)
qed simp_all

lemma for_each_append:
  "for_each f (xs @ ys) = bind_go (for_each f xs) (\<lambda>_. for_each f ys)"
  by (induction xs) (simp_all add: bind_go_assoc)

subsection \<open>The schedule semantics covers every interleaving\<close>

lemma interleaves_run_prefix:
  assumes "run p s = (Done x, s1)" and "i < length ts" and "ts ! i = bind_go p f"
    and "interleaves (ts[i := f x]) s1 s2"
  shows "interleaves ts s s2"
  using assms
proof (induction p arbitrary: s ts)
  case (Ret y)
  then have "ts[i := f x] = ts" by (metis bind_go.simps(1) list_update_id outcome.inject(1) prod.inject run.simps(1))
  with Ret show ?case by simp
next
  case (Act a)
  show ?case
  proof (cases "a s")
    case (Some r)
    obtain s' q where r: "r = (s', q)" by (cases r)
    have "interleaves (ts[i := bind_go q f]) s' s2"
      using Act.IH [of s s' q s' "ts[i := bind_go q f]"] Act.prems Some r by (simp add: run_Act)
    then show ?thesis using Act.prems Some r by (auto intro: interleaves.switch)
  qed (use Act.prems in \<open>simp add: run_Act\<close>)
qed simp_all

lemma interleaves_run:
  "run t s = (Done (), s1) \<Longrightarrow> i < length ts \<Longrightarrow> ts ! i = t \<Longrightarrow> interleaves (ts[i := Ret ()]) s1 s2 \<Longrightarrow>
     interleaves ts s s2"
  using interleaves_run_prefix [of t s "()" s1 i ts Ret s2] by simp

lemma interleaves_for_each:
  "run (for_each (\<lambda>t. t) ts) s = (Done (), s2) \<Longrightarrow>
     interleaves (replicate k (Ret ()) @ ts) s s2"
proof (induction ts arbitrary: s k)
  case Nil
  then show ?case by (auto intro!: interleaves.joined simp: list_all_iff)
next
  case (Cons t ts)
  from Cons.prems obtain s1 where t: "run t s = (Done (), s1)"
    and ts: "run (for_each (\<lambda>t. t) ts) s1 = (Done (), s2)"
    by (auto simp: after_Done_iff)
  have "interleaves (replicate (Suc k) (Ret ()) @ ts) s1 s2"
    using ts by (rule Cons.IH)
  moreover have "(replicate k (Ret ()) @ t # ts)[k := Ret ()] = replicate (Suc k) (Ret ()) @ ts"
    by (simp add: list_update_append replicate_app_Cons_same)
  ultimately show ?case
    using t by (intro interleaves_run [of t s s1 k]) (auto simp: nth_append)
qed

lemma par_sound: "run (par is ts) s = (Done (), s2) \<Longrightarrow> interleaves ts s s2"
proof (induction "is" ts arbitrary: s rule: par.induct)
  case (1 ts)
  then show ?case using interleaves_for_each [of ts s s2 0] by simp
next
  case (2 i "is" ts)
  then show ?case
    by (auto simp: run_Act split: if_splits prog.splits option.splits
        intro: interleaves.switch)
qed

lemma run_for_each_joined:
  "list_all (\<lambda>t. t = Ret ()) ts \<Longrightarrow> run (for_each (\<lambda>t. t) ts) s = (Done (), s)"
  by (induction ts) auto

lemma par_complete: "interleaves ts s s2 \<Longrightarrow> \<exists>is. run (par is ts) s = (Done (), s2)"
proof (induction rule: interleaves.induct)
  case (joined ts s)
  then show ?case by (intro exI [of _ "[]"]) (simp add: run_for_each_joined)
next
  case (switch i ts a s s' t s'')
  then obtain "is" where "run (par is (ts[i := t])) s' = (Done (), s'')" by blast
  with switch show ?case by (intro exI [of _ "i # is"]) (simp add: run_Act)
qed

subsection \<open>Rules of the effect system\<close>

lemmas guar_base [go_calls, intro] = guar_Ret guar_Panic guar_NoFuel

lemma guar_bind [go_calls, intro]:
  "guar R p \<Longrightarrow> (\<And>x. guar R (f x)) \<Longrightarrow> guar R (bind_go p f)"
  by (induction p) (auto simp: guar_Act_iff)

lemma guar_step_iff: "guar R (step u f) \<longleftrightarrow> (\<forall>s. R s (u s))"
  by (auto simp: step_def guar_Act_iff intro: guar_Ret)

lemma guar_block [go_calls, intro]: "guar R block"
  by (simp add: block_def guar_Act_iff)

lemma guar_deref [go_calls, intro]: "guar R (deref p)"
  by (auto simp: deref_def split: option.split)

lemma guar_index [go_calls, intro]: "guar R (index xs i)"
  by (auto simp: index_def)

lemma guar_for_each [go_calls, intro]:
  "(\<And>x. x \<in> set xs \<Longrightarrow> guar R (f x)) \<Longrightarrow> guar R (for_each f xs)"
  by (induction xs) auto

lemma guar_par [go_calls, intro]:
  assumes "reflp R" and "\<And>t. t \<in> set ts \<Longrightarrow> guar R t"
  shows "guar R (par is ts)"
  using assms(2)
proof (induction "is" ts rule: par.induct)
  case (1 ts)
  then show ?case by auto
next
  case (2 i "is" ts)
  show ?case
  proof (cases "i < length ts")
    case True
    then have g: "guar R (ts ! i)" using "2.prems" by simp
    show ?thesis
    proof (cases "ts ! i")
      case (Act a)
      have "R s s' \<and> guar R (par is (ts[i := q]))" if "a s = Some (s', q)" for s s' q
      proof -
        from g Act that have "R s s'" and "guar R q" by (auto simp: guar_Act_iff)
        then show ?thesis
          using "2.IH"(3) [OF True Act that] "2.prems"
          by (auto dest: set_update_subset_insert [THEN subsetD])
      qed
      moreover have "guar R (par is ts)" if "a s = None" for s
        using "2.IH"(2) [OF True Act that] "2.prems" by blast
      ultimately show ?thesis
        using True Act assms(1)
        by (auto simp: guar_Act_iff reflp_def split: option.splits)
    qed (use True "2.IH"(1) "2.prems" in auto)
  qed (use "2.IH"(4) "2.prems" in auto)
qed

lemma guar_run: "guar R p \<Longrightarrow> R\<^sup>*\<^sup>* s (snd (run p s))"
proof (induction p arbitrary: s)
  case (Act a)
  show ?case
  proof (cases "a s")
    case (Some r)
    obtain s' q where r: "r = (s', q)" by (cases r)
    with Act Some have "R s s'" and "R\<^sup>*\<^sup>* s' (snd (run q s'))"
      by (auto simp: guar_Act_iff)
    with Some r show ?thesis by (simp add: run_Act converse_rtranclp_into_rtranclp)
  qed (simp add: run_Act)
qed auto

lemma guar_mono: "guar R p \<Longrightarrow> (\<And>s s'. R s s' \<Longrightarrow> R' s s') \<Longrightarrow> guar R' p"
  by (induction p) (auto simp: guar_Act_iff)

subsection \<open>Programs that return\<close>

lemma returns_Ret' [go_returns, simp, intro]: "returns (Ret x)"
  by (rule returns_Ret)

lemma returns_bind [go_returns]: "returns p \<Longrightarrow> (\<And>x. returns (f x)) \<Longrightarrow> returns (bind_go p f)"
proof (induction p)
  case (Act a)
  show ?case unfolding bind_go.simps
  proof (rule returns_Act)
    fix s
    from Act.prems(1) obtain s' q where q: "a s = Some (s', q)" "returns q"
      unfolding returns_simps by blast
    then have "returns (bind_go q f)" using Act by blast
    with q show "\<exists>s' r. (map_option (map_prod id (\<lambda>p. bind_go p f)) \<circ> a) s = Some (s', r) \<and> returns r"
      by auto
  qed
qed (auto simp: returns_simps)

lemma returns_step [go_returns, intro]: "returns (step u f)"
  by (auto simp: step_def returns_simps)

lemma returns_for_each [go_returns]: "(\<And>x. x \<in> set xs \<Longrightarrow> returns (f x)) \<Longrightarrow> returns (for_each f xs)"
  by (induction xs) (auto intro: returns_bind)

lemma returns_par [go_returns]: "(\<And>t. t \<in> set ts \<Longrightarrow> returns t) \<Longrightarrow> returns (par is ts)"
proof (induction "is" ts rule: par.induct)
  case (1 ts)
  then show ?case by (auto intro: returns_for_each)
next
  case (2 i "is" ts)
  show ?case
  proof (cases "i < length ts")
    case True
    then have tot: "returns (ts ! i)" using "2.prems" by simp
    show ?thesis
    proof (cases "ts ! i")
      case (Act a)
      have "\<exists>s' q. a s = Some (s', q) \<and> returns (par is (ts[i := q]))" for s
      proof -
        from tot Act obtain s' q where q: "a s = Some (s', q)" "returns q"
          unfolding Act returns_simps by blast
        then show ?thesis
          using "2.IH"(3) [OF True Act q(1)] "2.prems"
          by (auto dest: set_update_subset_insert [THEN subsetD])
      qed
      then have "returns (Act (\<lambda>s. case a s of None \<Rightarrow> Some (s, par is ts)
          | Some (s', t) \<Rightarrow> Some (s', par is (ts[i := t]))))"
        by (intro returns_Act) (metis (no_types, lifting) case_prod_conv option.case(2))
      then show ?thesis using True Act by simp
    qed (use True tot "2.IH"(1) "2.prems" in \<open>auto simp: returns_simps\<close>)
  qed (use "2.IH"(4) "2.prems" in auto)
qed

lemma returns_if [go_returns]: "(b \<Longrightarrow> returns p) \<Longrightarrow> (\<not> b \<Longrightarrow> returns q) \<Longrightarrow> returns (if b then p else q)"
  by simp

lemma returns_case_option [go_returns]:
  "(x = None \<Longrightarrow> returns p) \<Longrightarrow> (\<And>y. x = Some y \<Longrightarrow> returns (f y)) \<Longrightarrow>
     returns (case x of None \<Rightarrow> p | Some y \<Rightarrow> f y)"
  by (cases x) auto

lemma returns_case_sum [go_returns]:
  "(\<And>e. x = Inl e \<Longrightarrow> returns (f e)) \<Longrightarrow> (\<And>y. x = Inr y \<Longrightarrow> returns (g y)) \<Longrightarrow>
     returns (case x of Inl e \<Rightarrow> f e | Inr y \<Rightarrow> g y)"
  by (cases x) auto

lemma returns_case_prod [go_returns]:
  "(\<And>a b. x = (a, b) \<Longrightarrow> returns (f a b)) \<Longrightarrow> returns (case x of (a, b) \<Rightarrow> f a b)"
  by (cases x) auto

lemma returns_run:
  assumes "returns p"
  obtains x s' where "run p s = (Done x, s')"
proof -
  have "\<exists>x s'. run p s = (Done x, s')"
    using assms
  proof (induction arbitrary: s rule: returns.induct)
    case (returns_Act a)
    then obtain s' q where "a s = Some (s', q)" "\<exists>x s''. run q s' = (Done x, s'')" by blast
    then show ?case by (auto simp: run_Act)
  qed simp
  then show thesis using that by blast
qed

section \<open>The history of outside calls\<close>

text \<open>
  Everything outside the program (the Kubernetes API server, the processes started with
  \<open>os/exec\<close>, the file system, timers) is reached by calls. The state of a Go process is
  the list of the calls it has made, oldest first, and any shared variables as further fields.
  What a call answers is a function of the calls made before it, so an environment is a record
  of such functions, and a theorem for every environment holds whatever the outside does.
\<close>

record 'c world =
  hist :: "'c list"

type_synonym ('c, 'm, 'a) go = "(('c, 'm) world_scheme, 'a) prog"

definition perform :: "'c \<Rightarrow> ('c list \<Rightarrow> 'r) \<Rightarrow> ('c, 'm, 'r) go" where
  "perform c f = step (\<lambda>s. s\<lparr>hist := hist s @ [c]\<rparr>) (\<lambda>s. f (hist s))"

lemma run_perform [go_run, simp]:
  "run (perform c f) s = (Done (f (hist s)), s\<lparr>hist := hist s @ [c]\<rparr>)"
  by (simp add: perform_def)

text \<open>\<open>extends P s s'\<close>: between \<open>s\<close> and \<open>s'\<close> only calls satisfying \<open>P\<close> were made.\<close>

definition extends :: "('c \<Rightarrow> bool) \<Rightarrow> ('c, 'm) world_scheme \<Rightarrow> ('c, 'm) world_scheme \<Rightarrow> bool" where
  "extends P s s' \<longleftrightarrow> (\<exists>cs. hist s' = hist s @ cs \<and> list_all P cs)"

abbreviation calls_in :: "('c \<Rightarrow> bool) \<Rightarrow> ('c, 'm, 'a) go \<Rightarrow> bool" where
  "calls_in P p \<equiv> guar (extends P) p"

lemma extends_refl [go_calls, simp, intro]: "extends P s s"
  by (simp add: extends_def)

lemma reflp_extends [go_calls, simp, intro]: "reflp (extends P)"
  by (simp add: reflp_def)

lemma extends_trans [trans]: "extends P s t \<Longrightarrow> extends P t u \<Longrightarrow> extends P s u"
  by (auto simp: extends_def)

lemma extends_rtranclp: "(extends P)\<^sup>*\<^sup>* s t \<Longrightarrow> extends P s t"
  by (induction rule: rtranclp_induct) (auto intro: extends_trans)

lemma calls_in_run: "calls_in P p \<Longrightarrow> extends P s (snd (run p s))"
  by (rule extends_rtranclp) (rule guar_run)

lemma calls_in_runE:
  assumes "calls_in P p" and "run p s = (r, s')"
  obtains cs where "hist s' = hist s @ cs" and "list_all P cs"
  using calls_in_run [OF assms(1), of s] assms(2) by (auto simp: extends_def)

lemma calls_in_perform [go_calls]: "P c \<Longrightarrow> calls_in P (perform c f)"
  by (auto simp: perform_def guar_step_iff extends_def)

lemma calls_in_mono: "calls_in P p \<Longrightarrow> (\<And>c. P c \<Longrightarrow> Q c) \<Longrightarrow> calls_in Q p"
  by (erule guar_mono) (auto simp: extends_def list_all_iff)

lemma guar_if [go_calls]:
  "(b \<Longrightarrow> guar R p) \<Longrightarrow> (\<not> b \<Longrightarrow> guar R q) \<Longrightarrow> guar R (if b then p else q)"
  by simp

lemma guar_case_option [go_calls]:
  "(x = None \<Longrightarrow> guar R p) \<Longrightarrow> (\<And>y. x = Some y \<Longrightarrow> guar R (f y)) \<Longrightarrow>
     guar R (case x of None \<Rightarrow> p | Some y \<Rightarrow> f y)"
  by (cases x) auto

lemma guar_case_prod [go_calls]:
  "(\<And>a b. x = (a, b) \<Longrightarrow> guar R (f a b)) \<Longrightarrow> guar R (case x of (a, b) \<Rightarrow> f a b)"
  by (cases x) auto

lemma guar_let [go_calls]: "(\<And>x. x = v \<Longrightarrow> guar R (f x)) \<Longrightarrow> guar R (let x = v in f x)"
  by (simp add: Let_def)

lemma guar_case_sum [go_calls]:
  "(\<And>e. x = Inl e \<Longrightarrow> guar R (f e)) \<Longrightarrow> (\<And>y. x = Inr y \<Longrightarrow> guar R (g y)) \<Longrightarrow>
     guar R (case x of Inl e \<Rightarrow> f e | Inr y \<Rightarrow> g y)"
  by (cases x) auto

lemma returns_perform [go_returns, intro]: "returns (perform c f)"
  by (auto simp: perform_def)

subsection \<open>Calls that a goroutine is sure to make\<close>

text \<open>
  \<open>sure c Q p\<close>: whatever other goroutines do in between, \<open>p\<close> goes on until it makes the call \<open>c\<close> or
  returns a value in \<open>Q\<close>.
\<close>

inductive sure :: "'c \<Rightarrow> ('a \<Rightarrow> bool) \<Rightarrow> ('c, 'm, 'a) go \<Rightarrow> bool" for c Q where
  sure_Ret: "Q x \<Longrightarrow> sure c Q (Ret x)"
| sure_Act: "(\<And>s. \<exists>s' q. a s = Some (s', q) \<and>
     ((\<exists>ds. hist s' = hist s @ ds \<and> c \<in> set ds) \<or> sure c Q q)) \<Longrightarrow> sure c Q (Act a)"

inductive_simps sure_simps [simp]: "sure c Q (Ret x)" "sure c Q (Panic e)" "sure c Q NoFuel"

inductive_cases sure_ActE: "sure c Q (Act a)"

lemma sure_bind:
  assumes "sure c Q p" and "\<And>x. Q x \<Longrightarrow> sure c R (f x)"
  shows "sure c R (bind_go p f)"
  using assms(1)
proof (induction rule: sure.induct)
  case (sure_Ret x)
  then show ?case using assms(2) by simp
next
  case (sure_Act a)
  show ?case unfolding bind_go.simps
  proof (rule sure.sure_Act)
    fix s
    from sure_Act [of s] obtain s' q where "a s = Some (s', q)"
      and "(\<exists>ds. hist s' = hist s @ ds \<and> c \<in> set ds) \<or> sure c R (bind_go q f)" by blast
    then show "\<exists>s' q. (map_option (map_prod id (\<lambda>p. bind_go p f)) \<circ> a) s = Some (s', q) \<and>
        ((\<exists>ds. hist s' = hist s @ ds \<and> c \<in> set ds) \<or> sure c R q)" by simp
  qed
qed

lemma sure_perform: "(\<And>h. d = c \<or> Q (f h)) \<Longrightarrow> sure c Q (perform d f)"
  unfolding perform_def step_def by (rule sure_Act) auto

text \<open>A program without calls that returns is its value.\<close>

lemma pure_Ret: "guar (\<lambda>_ _. False) p \<Longrightarrow> run p s = (Done x, s') \<Longrightarrow> p = Ret x"
  by (cases p) (auto simp: guar_Act_iff run_Act split: option.splits)

subsection \<open>The calls of one goroutine among others\<close>

text \<open>
  \<open>emits p x cs\<close>: with some answers of the environment, and with any calls of other
  goroutines in between, \<open>p\<close> makes the calls \<open>cs\<close> and returns \<open>x\<close>.
\<close>

inductive emits :: "('c, 'm, 'a) go \<Rightarrow> 'a \<Rightarrow> 'c list \<Rightarrow> bool" where
  emits_Ret: "emits (Ret x) x []"
| emits_Act: "a s = Some (s', q) \<Longrightarrow> hist s' = hist s @ cs \<Longrightarrow> emits q x ds \<Longrightarrow> emits (Act a) x (cs @ ds)"

inductive_simps emits_simps:
  "emits (Ret x) y cs" "emits (Panic e) y cs" "emits NoFuel y cs" "emits (Act a) y cs"

lemma emits_bind:
  "emits (bind_go p f) y cs \<longleftrightarrow> (\<exists>x as bs. cs = as @ bs \<and> emits p x as \<and> emits (f x) y bs)"
proof
  show "emits (bind_go p f) y cs \<Longrightarrow> \<exists>x as bs. cs = as @ bs \<and> emits p x as \<and> emits (f x) y bs"
  proof (induction p arbitrary: cs)
    case (Act a)
    from Act.prems obtain s s' q as ds where a: "a s = Some (s', q)" "hist s' = hist s @ as"
      and cs: "cs = as @ ds" and q: "emits (bind_go q f) y ds"
      by (auto simp: emits_simps)
    from Act.IH [OF a(1) q] obtain x bs es where "ds = bs @ es" "emits q x bs" "emits (f x) y es"
      by blast
    with a cs show ?case
      by (intro exI [of _ x] exI [of _ "as @ bs"] exI [of _ es]) (auto intro: emits_Act)
  qed (auto simp: emits_simps)
next
  assume "\<exists>x as bs. cs = as @ bs \<and> emits p x as \<and> emits (f x) y bs"
  then obtain x as bs where cs: "cs = as @ bs" and p: "emits p x as" and f: "emits (f x) y bs"
    by blast
  from p f have "emits (bind_go p f) y (as @ bs)"
  proof (induction rule: emits.induct)
    case (emits_Act a s s' q cs x ds)
    then have "(map_option (map_prod id (\<lambda>p. bind_go p f)) \<circ> a) s = Some (s', bind_go q f)"
      by simp
    with emits_Act have "emits (Act (map_option (map_prod id (\<lambda>p. bind_go p f)) \<circ> a)) y (cs @ (ds @ bs))"
      by (intro emits.emits_Act) auto
    then show ?case by simp
  qed simp
  with cs show "emits (bind_go p f) y cs" by simp
qed

lemma emits_perform [simp]: "emits (perform c f) x cs \<longleftrightarrow> cs = [c] \<and> (\<exists>h. x = f h)"
proof -
  have "hist (s\<lparr>hist := h\<rparr>) = h" for s :: "('a, 'b) world_scheme" and h by simp
  then show ?thesis
    by (auto simp: perform_def step_def emits_simps) (metis (no_types, lifting) world.select_convs(1))
qed

lemma emits_run:
  assumes "run p s = (Done x, s')" and "calls_in (\<lambda>_. True) p"
  obtains cs where "hist s' = hist s @ cs" and "emits p x cs"
proof -
  have "\<exists>cs. hist s' = hist s @ cs \<and> emits p x cs"
    using assms
  proof (induction p arbitrary: s)
    case (Act a)
    obtain s1 q where q: "a s = Some (s1, q)"
      using Act.prems(1) by (cases "a s") (auto simp: run_Act)
    then obtain as where as: "hist s1 = hist s @ as" "calls_in (\<lambda>_. True) q"
      using Act.prems(2) unfolding guar_Act_iff by (metis extends_def)
    have "run q s1 = (Done x, s')" using Act.prems(1) q by (simp add: run_Act)
    from Act.IH [OF q this as(2)] obtain bs where "hist s' = hist s1 @ bs" "emits q x bs"
      by blast
    with q as show ?case by (metis append.assoc emits_Act)
  qed (auto intro: emits_Ret)
  then show thesis using that by blast
qed

lemma emits_calls_in:
  "emits p x cs \<Longrightarrow> calls_in P p \<Longrightarrow> list_all P cs"
proof (induction rule: emits.induct)
  case (emits_Act a s s' q cs x ds)
  then have "extends P s s'" and "list_all P ds" by (auto simp: guar_Act_iff)
  then show ?case using emits_Act.hyps(2) by (simp add: extends_def)
qed simp

lemma emits_for_each:
  "emits (for_each f xs) () cs \<Longrightarrow> \<exists>css. list_all2 (\<lambda>x. emits (f x) ()) xs css \<and> cs = concat css"
proof (induction xs arbitrary: cs)
  case (Cons x xs)
  then obtain as bs where "emits (f x) () as" "emits (for_each f xs) () bs" "cs = as @ bs"
    by (auto simp: emits_bind)
  moreover obtain css where "list_all2 (\<lambda>x. emits (f x) ()) xs css" "bs = concat css"
    using Cons.IH calculation(2) by blast
  ultimately show ?case by (intro exI [of _ "as # css"]) simp
qed (simp add: emits_simps)

text \<open>A step of one goroutine puts its calls in front of those it makes later.\<close>

lemma emits_switch:
  assumes "i < length ts" and "ts ! i = Act a" and "a s = Some (s1, t)" and as: "hist s1 = hist s @ as"
    and css: "list_all2 (\<lambda>t. emits t ()) (ts[i := t]) css"
  shows "\<exists>css'. list_all2 (\<lambda>t. emits t ()) ts css' \<and> sum_list (map mset css') = mset as + sum_list (map mset css)"
proof (intro exI conjI)
  let ?css = "css[i := as @ css ! i]"
  have len: "length css = length ts" using css by (auto dest: list_all2_lengthD)
  have "emits t () (css ! i)" using css assms(1) by (auto simp: list_all2_conv_all_nth)
  then have "emits (Act a) () (as @ css ! i)" using assms(3) as by (auto intro: emits_Act)
  then show "list_all2 (\<lambda>t. emits t ()) ts ?css"
    using css assms(1,2) len by (auto simp: list_all2_conv_all_nth nth_list_update)
  have "css = take i css @ css ! i # drop (Suc i) css"
    using assms(1) len by (simp add: id_take_nth_drop)
  then have "sum_list (map mset css) =
      sum_list (map mset (take i css)) + mset (css ! i) + sum_list (map mset (drop (Suc i) css))"
    by (metis (no_types, lifting) add.assoc list.simps(9) map_append sum_list.Cons sum_list.append)
  moreover have "?css = take i css @ (as @ css ! i) # drop (Suc i) css"
    using assms(1) len by (simp add: upd_conv_take_nth_drop)
  ultimately show "sum_list (map mset ?css) = mset as + sum_list (map mset css)" by simp
qed

lemma sum_list_mset_concat: "sum_list (map mset xss) = mset (concat xss)"
  by (induction xss) auto

text \<open>Goroutines run by \<open>par\<close> as part of a larger goroutine.\<close>

lemma emits_par:
  "emits (par is ts) () cs \<Longrightarrow>
     \<exists>css. list_all2 (\<lambda>t. emits t ()) ts css \<and> mset cs = sum_list (map mset css)"
proof (induction "is" ts arbitrary: cs rule: par.induct)
  case (1 ts)
  then have "emits (for_each (\<lambda>t. t) ts) () cs" by simp
  from emits_for_each [OF this] show ?case using sum_list_mset_concat by metis
next
  case (2 i "is" ts)
  show ?case
  proof (cases "i < length ts")
    case True
    show ?thesis
    proof (cases "ts ! i")
      case (Act a)
      let ?b = "\<lambda>s. case a s of None \<Rightarrow> Some (s, par is ts) | Some (s', t) \<Rightarrow> Some (s', par is (ts[i := t]))"
      have "emits (Act ?b) () cs" using "2.prems" True Act by simp
      then obtain s s' q as ds where b: "?b s = Some (s', q)" "hist s' = hist s @ as" "emits q () ds"
        and cs: "cs = as @ ds" unfolding emits_simps by blast
      show ?thesis
      proof (cases "a s")
        case None
        then show ?thesis using "2.IH"(2) [OF True Act None, of ds] b cs by auto
      next
        case (Some r)
        then obtain t where t: "a s = Some (s', t)" "q = par is (ts[i := t])" using b(1) by (cases r) auto
        then obtain css where css: "list_all2 (\<lambda>t. emits t ()) (ts[i := t]) css" "mset ds = sum_list (map mset css)"
          using "2.IH"(3) [OF True Act t(1), of s' t ds] b(3) by auto
        from emits_switch [OF True Act t(1) b(2) css(1)] css(2) cs show ?thesis by auto
      qed
    qed (use True "2.IH"(1) "2.prems" in \<open>auto simp: emits_simps\<close>)
  qed (use "2.IH"(4) "2.prems" in auto)
qed

text \<open>Joined goroutines: together they make the calls that each of them makes alone.\<close>

lemma interleaves_emits:
  assumes "interleaves ts s s'" and "\<And>t. t \<in> set ts \<Longrightarrow> calls_in (\<lambda>_. True) t"
  shows "\<exists>css cs. list_all2 (\<lambda>t. emits t ()) ts css \<and> hist s' = hist s @ cs \<and>
    mset cs = sum_list (map mset css)"
  using assms
proof (induction rule: interleaves.induct)
  case (joined ts s)
  then have "list_all2 (\<lambda>t. emits t ()) ts (map (\<lambda>_. []) ts)"
    by (induction ts) (auto intro: emits_Ret)
  moreover have "sum_list (map mset (map (\<lambda>_. []) ts)) = {#}" by (induction ts) auto
  ultimately show ?case by (intro exI [of _ "map (\<lambda>_. []) ts"] exI [of _ "[]"]) simp
next
  case (switch i ts a s s1 t s2)
  have "calls_in (\<lambda>_. True) (Act a)" using switch.hyps switch.prems by (metis nth_mem)
  then obtain as where as: "hist s1 = hist s @ as" and "calls_in (\<lambda>_. True) t"
    using switch.hyps(3) unfolding guar_Act_iff by (metis extends_def)
  then obtain css bs where css: "list_all2 (\<lambda>t. emits t ()) (ts[i := t]) css"
    and bs: "hist s2 = hist s1 @ bs" "mset bs = sum_list (map mset css)"
    using switch.IH switch.prems set_update_subset_insert [of ts i t] by blast
  from emits_switch [OF switch.hyps(1-3) as css] obtain css' where
    "list_all2 (\<lambda>t. emits t ()) ts css'" "sum_list (map mset css') = mset as + sum_list (map mset css)"
    by blast
  then show ?case using as bs by (intro exI [of _ css'] exI [of _ "as @ bs"]) simp
qed

end
