(* ===== verification/Go_Strings.thy ===== *)
theory Go_Strings
  imports Go_Prog
begin

text \<open>
  The parts of Go's standard library on strings that the repository calls:
  \<open>strings.Split\<close>, \<open>strings.Contains\<close>, \<open>strings.ToLower\<close>,
  \<open>strings.EqualFold\<close>, \<open>bytes.TrimRight\<close>, \<open>filepath.Join\<close>, the verb
  \<open>%d\<close> of \<open>fmt.Sprintf\<close> and the matching of the regular expression
  \<open>checkpoint-(.+?)_\<close> by \<open>regexp.FindStringSubmatch\<close>. A Go string is a list of
  bytes, an Isabelle \<open>char\<close> each. The lemmas give each function by its specification:
  splitting is undone by joining, containment is the sublist relation, the regular expression
  match is the leftmost and then shortest one.
\<close>

named_theorems go_string

section \<open>Searching and splitting\<close>

text \<open>The text before and after the first occurrence of a separator (\<open>strings.Cut\<close>).\<close>

fun str_cut :: "string \<Rightarrow> string \<Rightarrow> (string \<times> string) option" where
  "str_cut sep [] = (if sep = [] then Some ([], []) else None)"
| "str_cut sep (c # cs) =
     (if prefix sep (c # cs) then Some ([], drop (length sep) (c # cs))
      else map_option (apfst (Cons c)) (str_cut sep cs))"

lemma str_cut_Some: "str_cut sep s = Some (a, b) \<Longrightarrow> s = a @ sep @ b"
  by (induction sep s arbitrary: a b rule: str_cut.induct)
    (auto split: if_splits elim!: prefixE)

lemma str_cut_shorter: "str_cut sep s = Some (a, b) \<Longrightarrow> sep \<noteq> [] \<Longrightarrow> length b < length s"
  by (drule str_cut_Some) (cases sep; auto)

definition contains :: "string \<Rightarrow> string \<Rightarrow> bool" where
  "contains s sub = (str_cut sub s \<noteq> None)"

text \<open>\<open>strings.Split\<close>; with an empty separator it gives the single characters.\<close>

function split :: "string \<Rightarrow> string \<Rightarrow> string list" where
  "split s sep =
     (if sep = [] then map (\<lambda>c. [c]) s
      else case str_cut sep s of None \<Rightarrow> [s] | Some (a, b) \<Rightarrow> a # split b sep)"
  by pat_completeness auto
termination
  by (relation "measure (\<lambda>(s, sep). length s)") (auto dest: str_cut_shorter)

declare split.simps [simp del]

fun join :: "string \<Rightarrow> string list \<Rightarrow> string" where
  "join sep [] = []"
| "join sep [x] = x"
| "join sep (x # y # ys) = x @ sep @ join sep (y # ys)"

section \<open>Letters\<close>

definition ascii_lower :: "char \<Rightarrow> char" where
  "ascii_lower c = (if 65 \<le> (of_char c :: nat) \<and> (of_char c :: nat) \<le> 90
                    then char_of ((of_char c :: nat) + 32) else c)"

definition is_ascii :: "char \<Rightarrow> bool" where
  "is_ascii c \<longleftrightarrow> (of_char c :: nat) < 128"

text \<open>
  \<open>strings.ToLower\<close>: byte by byte on ASCII text; on other text Go consults the Unicode
  tables, which are the argument \<open>tables\<close>.
\<close>

definition to_lower :: "(string \<Rightarrow> string) \<Rightarrow> string \<Rightarrow> string" where
  "to_lower tables s = (if list_all is_ascii s then map ascii_lower s else tables s)"

text \<open>
  \<open>strings.EqualFold(s, t)\<close> for an ASCII text \<open>t\<close>. Under Unicode simple folding two
  runes outside ASCII fold to an ASCII letter: the long s (bytes C5 BF) to \<open>s\<close> and the
  Kelvin sign (bytes E2 84 AA) to \<open>k\<close>; every other rune outside ASCII folds to none.
\<close>

fun fold_ascii :: "string \<Rightarrow> string" where
  "fold_ascii (a # b # c # cs) =
     (if a = CHR 0xC5 \<and> b = CHR 0xBF then CHR ''s'' # fold_ascii (c # cs)
      else if a = CHR 0xE2 \<and> b = CHR 0x84 \<and> c = CHR 0xAA then CHR ''k'' # fold_ascii cs
      else ascii_lower a # fold_ascii (b # c # cs))"
| "fold_ascii [a, b] =
     (if a = CHR 0xC5 \<and> b = CHR 0xBF then ''s'' else [ascii_lower a, ascii_lower b])"
| "fold_ascii [a] = [ascii_lower a]"
| "fold_ascii [] = []"

definition equal_fold :: "string \<Rightarrow> string \<Rightarrow> bool" where
  "equal_fold s t \<longleftrightarrow> fold_ascii s = map ascii_lower t"

definition trim_right_newlines :: "string \<Rightarrow> string" where
  "trim_right_newlines s = rev (dropWhile (\<lambda>c. c = CHR 0x0A) (rev s))"

section \<open>Decimal numbers\<close>

fun show_nat :: "nat \<Rightarrow> string" where
  "show_nat n =
     (if n < 10 then [char_of (48 + n)] else show_nat (n div 10) @ [char_of (48 + n mod 10)])"

declare show_nat.simps [simp del]

definition show_int :: "int \<Rightarrow> string" where
  "show_int i = (if i < 0 then ''-'' @ show_nat (nat (- i)) else show_nat (nat i))"

section \<open>Paths\<close>

text \<open>
  \<open>filepath.Clean\<close>: the components of a slash-separated path, without empty ones and
  \<open>.\<close>, each \<open>..\<close> cancelling the component before it.
\<close>

fun clean_components :: "bool \<Rightarrow> string list \<Rightarrow> string list \<Rightarrow> string list" where
  "clean_components rooted acc [] = rev acc"
| "clean_components rooted acc (x # xs) =
     (if x = [] \<or> x = ''.'' then clean_components rooted acc xs
      else if x = ''..'' then
        (case acc of
           [] \<Rightarrow> clean_components rooted (if rooted then [] else [x]) xs
         | y # ys \<Rightarrow> clean_components rooted (if y = ''..'' then x # acc else ys) xs)
      else clean_components rooted (x # acc) xs)"

definition path_clean :: "string \<Rightarrow> string" where
  "path_clean p =
     (let rooted = prefix ''/'' p;
          body = join ''/'' (clean_components rooted [] (split p ''/''))
      in if rooted then ''/'' @ body else if body = [] then ''.'' else body)"

definition path_join :: "string \<Rightarrow> string \<Rightarrow> string" where
  "path_join dir name =
     (if dir = [] \<and> name = [] then []
      else if dir = [] then path_clean name
      else path_clean (dir @ ''/'' @ name))"

section \<open>The regular expression \<open>checkpoint-(.+?)_\<close>\<close>

text \<open>
  \<open>lazy_until\<close> is the lazy group up to the next underscore: it takes as few characters as
  possible, at least one, none of them a newline (the dot does not match it).
\<close>

fun lazy_until :: "string \<Rightarrow> string option" where
  "lazy_until (c # d # cs) =
     (if c = CHR 0x0A then None
      else if d = CHR ''_'' then Some [c]
      else map_option (Cons c) (lazy_until (d # cs)))"
| "lazy_until _ = None"

fun find_group :: "string \<Rightarrow> string \<Rightarrow> string option" where
  "find_group lit [] = None"
| "find_group lit (c # cs) =
     (if prefix lit (c # cs) then
        (case lazy_until (drop (length lit) (c # cs)) of
           Some g \<Rightarrow> Some g
         | None \<Rightarrow> find_group lit cs)
      else find_group lit cs)"

text \<open>Group 1 of the leftmost match of the regular expression, \<open>None\<close> for no match.\<close>

definition find_checkpoint_match :: "string \<Rightarrow> string option" where
  "find_checkpoint_match s = find_group ''checkpoint-'' s"

section \<open>Specifications\<close>

lemma str_cut_None: "str_cut sep s = None \<longleftrightarrow> \<not> sublist sep s"
proof (induction sep s rule: str_cut.induct)
  case (2 sep c cs)
  then show ?case by (auto simp: sublist_Cons_right)
qed simp

lemma contains_iff: "contains s sub \<longleftrightarrow> sublist sub s"
  by (simp add: contains_def str_cut_None)

lemma str_cut_first:
  "str_cut sep s = Some (a, b) \<Longrightarrow> a = u @ v \<Longrightarrow> v \<noteq> [] \<Longrightarrow> \<not> prefix sep (v @ sep @ b)"
proof (induction sep s arbitrary: a b u rule: str_cut.induct)
  case (2 sep c cs)
  show ?case
  proof (cases "prefix sep (c # cs)")
    case False
    with "2.prems"(1) obtain a' where a: "a = c # a'" and cs: "str_cut sep cs = Some (a', b)"
      by auto
    show ?thesis
    proof (cases u)
      case Nil
      with "2.prems" a have "v = c # a'" by simp
      with False show ?thesis using str_cut_Some [OF cs] by simp
    next
      case (Cons x us)
      with "2.prems" a have "a' = us @ v" by simp
      then show ?thesis using "2.IH" [OF False cs] "2.prems" by blast
    qed
  qed (use "2.prems" in simp)
qed (auto split: if_splits)

lemma split_not_Nil [simp]: "sep \<noteq> [] \<Longrightarrow> split s sep \<noteq> []"
  by (subst split.simps) (auto split: option.splits)

lemma split_join: "sep \<noteq> [] \<Longrightarrow> join sep (split s sep) = s"
proof (induction s sep rule: split.induct)
  case (1 s sep)
  show ?case
  proof (cases "str_cut sep s")
    case None
    then show ?thesis using "1.prems" by (simp add: split.simps [of s])
  next
    case (Some r)
    obtain a b where r: "r = (a, b)" by (cases r)
    obtain y ys where y: "split b sep = y # ys"
      using split_not_Nil [OF "1.prems", of b] by (cases "split b sep") auto
    have "join sep (split b sep) = b"
      using "1.IH" [OF "1.prems" Some r [symmetric]] "1.prems" by simp
    moreover have "split s sep = a # split b sep"
      using Some r "1.prems" by (simp add: split.simps [of s])
    moreover have "s = a @ sep @ b" using Some r by (simp add: str_cut_Some)
    ultimately show ?thesis using y by simp
  qed
qed

lemma split_parts: "sep \<noteq> [] \<Longrightarrow> x \<in> set (split s sep) \<Longrightarrow> \<not> sublist sep x"
proof (induction s sep rule: split.induct)
  case (1 s sep)
  show ?case
  proof (cases "str_cut sep s")
    case None
    then have "split s sep = [s]" using "1.prems" by (simp add: split.simps [of s])
    moreover have "\<not> sublist sep s" using None by (simp add: str_cut_None)
    ultimately show ?thesis using "1.prems" by simp
  next
    case (Some r)
    obtain a b where r: "r = (a, b)" by (cases r)
    have "\<not> sublist sep a"
    proof
      assume "sublist sep a"
      then obtain u w where "a = u @ sep @ w" by (auto simp: sublist_def)
      then show False
        using str_cut_first [of sep s a b u "sep @ w"] Some r "1.prems" by (auto simp: prefix_def)
    qed
    then show ?thesis using "1.IH" [OF "1.prems"(1) Some r [symmetric]] "1.prems" Some r
      by (auto simp: split.simps [of s])
  qed
qed

subsection \<open>Splitting at one character\<close>

lemma str_cut_char: "c \<notin> set x \<Longrightarrow> str_cut [c] (x @ c # y) = Some (x, y)"
  by (induction x) auto

lemma split_char_append [go_string]:
  "c \<notin> set x \<Longrightarrow> split (x @ c # y) [c] = x # split y [c]"
  by (subst split.simps) (simp add: str_cut_char)

lemma split_char_single [go_string]: "c \<notin> set x \<Longrightarrow> split x [c] = [x]"
proof -
  assume "c \<notin> set x"
  then have "str_cut [c] x = None" by (induction x) auto
  then show ?thesis by (simp add: split.simps [of x])
qed

lemma split_char_Nil [go_string]: "split [] [c] = [[]]"
  by (simp add: split_char_single)

lemma split_char_Cons:
  "split (c # y) [c] = [] # split y [c]"
  using split_char_append [of c "[]"] by simp

lemma split_char_app:
  "split (x @ c # y) [c] = split x [c] @ split y [c]"
proof (induction "length x" arbitrary: x rule: less_induct)
  case less
  show ?case
  proof (cases "c \<in> set x")
    case True
    then obtain u v where x: "x = u @ c # v" and u: "c \<notin> set u"
      by (meson split_list_first)
    then have "split (x @ c # y) [c] = u # split (v @ c # y) [c]"
      using split_char_append [OF u, of "v @ c # y"] by simp
    also have "\<dots> = (u # split v [c]) @ split y [c]" using less [of v] x by simp
    also have "u # split v [c] = split x [c]" using split_char_append [OF u] x by simp
    finally show ?thesis .
  qed (simp add: split_char_append split_char_single)
qed

lemma split_char_join:
  "xs \<noteq> [] \<Longrightarrow> list_all (\<lambda>x. c \<notin> set x) xs \<Longrightarrow> split (join [c] xs) [c] = xs"
proof (induction "[c]" xs rule: join.induct)
  case (3 x y ys)
  then show ?case by (simp add: split_char_append)
qed (simp_all add: split_char_single)

lemma join_append:
  "xs \<noteq> [] \<Longrightarrow> ys \<noteq> [] \<Longrightarrow> join sep (xs @ ys) = join sep xs @ sep @ join sep ys"
proof (induction sep xs rule: join.induct)
  case (2 sep x)
  then show ?case by (cases ys) auto
qed auto

subsection \<open>Joining a directory and a file name\<close>

text \<open>A name as \<open>os.ReadDir\<close> returns it: one component, none of the special ones.\<close>

definition plain_name :: "string \<Rightarrow> bool" where
  "plain_name n \<longleftrightarrow> n \<noteq> [] \<and> n \<noteq> ''.'' \<and> n \<noteq> ''..'' \<and> CHR ''/'' \<notin> set n"

lemma clean_components_plain:
  "list_all plain_name xs \<Longrightarrow> clean_components rooted acc xs = rev acc @ xs"
  by (induction xs arbitrary: acc) (auto simp: plain_name_def)

lemma clean_components_append_plain:
  "plain_name n \<Longrightarrow> clean_components rooted acc (xs @ [n]) = clean_components rooted acc xs @ [n]"
  by (induction rooted acc xs rule: clean_components.induct)
    (auto simp: plain_name_def split: list.split)

lemma path_join_rooted:
  assumes "list_all plain_name ds" and "plain_name n"
  shows "path_join (''/'' @ join ''/'' ds) n = ''/'' @ join ''/'' (ds @ [n])"
proof -
  have d: "CHR ''/'' \<notin> set d" if "d \<in> set ds" for d
    using assms(1) that by (auto simp: list_all_iff plain_name_def)
  have n: "CHR ''/'' \<notin> set n" "n \<noteq> []" using assms(2) by (auto simp: plain_name_def)
  have *: "clean_components True [] (split (join ''/'' ds @ ''/'' @ n) ''/'') = ds @ [n]"
  proof (cases "ds = []")
    case True
    then show ?thesis
      using assms(2) clean_components_plain [of "[n]" True "[]"] n
      by (simp add: split_char_Cons split_char_single)
  next
    case False
    then have "split (join ''/'' ds @ ''/'' @ n) ''/'' = ds @ [n]"
      using d n split_char_join [of ds "CHR ''/''"]
      by (simp add: split_char_app split_char_single list_all_iff)
    then show ?thesis
      using clean_components_plain [of "ds @ [n]" True "[]"] assms by simp
  qed
  have "path_join (''/'' @ join ''/'' ds) n
      = ''/'' @ join ''/'' (clean_components True [] (split (''/'' @ join ''/'' ds @ ''/'' @ n) ''/''))"
    by (simp add: path_join_def path_clean_def)
  also have "split (''/'' @ join ''/'' ds @ ''/'' @ n) ''/'' = [] # split (join ''/'' ds @ ''/'' @ n) ''/''"
    using split_char_Cons [of "CHR ''/''" "join ''/'' ds @ ''/'' @ n"] by simp
  finally show ?thesis using * by simp
qed

subsection \<open>The regular expression match\<close>

lemma lazy_until_Some:
  "lazy_until s = Some g \<longleftrightarrow>
     (\<exists>c w rest. g = c # w \<and> s = g @ CHR ''_'' # rest \<and> CHR ''_'' \<notin> set w \<and> CHR 0x0A \<notin> set g)"
    (is "?L s g \<longleftrightarrow> ?R s g")
proof
  show "?L s g \<Longrightarrow> ?R s g"
  proof (induction s arbitrary: g rule: lazy_until.induct)
    case (1 c d cs)
    then show ?case by (fastforce split: if_splits)
  qed simp_all
next
  assume "?R s g"
  then obtain c w rest where "g = c # w" "s = c # w @ CHR ''_'' # rest"
    "CHR ''_'' \<notin> set w" "CHR 0x0A \<notin> set (c # w)" by auto
  then show "?L s g"
  proof (induction w arbitrary: c s g)
    case (Cons d w)
    then show ?case by (cases w) auto
  qed simp
qed

lemma prefix_drop: "prefix lit s \<longleftrightarrow> s = lit @ drop (length lit) s"
  by (metis append_take_drop_id prefixE prefixI append_eq_conv_conj)

lemma find_group_at:
  assumes "c # cs = lit @ v"
  shows "find_group lit (c # cs) =
    (case lazy_until v of Some g \<Rightarrow> Some g | None \<Rightarrow> find_group lit cs)"
proof -
  have "prefix lit (c # cs)" and "drop (length lit) (c # cs) = v"
    using assms by (simp_all add: prefix_def)
  then show ?thesis by (simp only: find_group.simps if_True)
qed

lemma find_group_Some:
  "find_group lit s = Some g \<Longrightarrow>
     \<exists>u v. s = u @ lit @ v \<and> lazy_until v = Some g \<and>
       (\<forall>u' v'. s = u' @ lit @ v' \<longrightarrow> length u' < length u \<longrightarrow> lazy_until v' = None)"
proof (induction s)
  case (Cons c cs)
  show ?case
  proof (cases "\<exists>v. c # cs = lit @ v \<and> lazy_until v = Some g")
    case True
    then obtain v where "c # cs = lit @ v" "lazy_until v = Some g" by blast
    then show ?thesis by (intro exI [of _ "[]"] exI [of _ v]) simp
  next
    case False
    then have no: "lazy_until v = None" if "c # cs = lit @ v" for v
      using Cons.prems that find_group_at [OF that] by (auto split: option.splits)
    then have "find_group lit cs = Some g"
      using Cons.prems False
      by (auto simp: prefix_drop split: if_splits option.splits)
    then obtain u v where uv: "cs = u @ lit @ v" "lazy_until v = Some g"
      and first: "\<And>u' v'. cs = u' @ lit @ v' \<Longrightarrow> length u' < length u \<Longrightarrow> lazy_until v' = None"
      using Cons.IH by blast
    have "lazy_until v' = None"
      if "c # cs = u' @ lit @ v'" "length u' < length (c # u)" for u' v'
      using that no first by (cases u') auto
    with uv show ?thesis by (intro exI [of _ "c # u"] exI [of _ v]) auto
  qed
qed simp

lemma find_group_prefix:
  "lit \<noteq> [] \<Longrightarrow> lazy_until v = Some g \<Longrightarrow> find_group lit (lit @ v) = Some g"
  by (cases "lit @ v") (auto simp: find_group_at [of _ _ lit v] simp del: find_group.simps)

lemma find_group_skip:
  "lit \<noteq> [] \<Longrightarrow> (\<And>x y. u = x @ y \<Longrightarrow> y \<noteq> [] \<Longrightarrow> \<not> prefix lit (y @ v)) \<Longrightarrow>
     find_group lit (u @ v) = find_group lit v"
proof (induction u)
  case (Cons c u)
  have "\<not> prefix lit (c # u @ v)" using Cons.prems(2) [of "[]" "c # u"] by simp
  moreover have "find_group lit (u @ v) = find_group lit v"
    using Cons.prems(2) [of "c # x" for x] by (intro Cons.IH [OF Cons.prems(1)]) simp
  ultimately show ?case by simp
qed simp

lemma find_group_None:
  "lit \<noteq> [] \<Longrightarrow> find_group lit s = None \<longleftrightarrow> (\<forall>u v. s = u @ lit @ v \<longrightarrow> lazy_until v = None)"
proof
  show "find_group lit s = None \<Longrightarrow> \<forall>u v. s = u @ lit @ v \<longrightarrow> lazy_until v = None"
  proof (induction s)
    case (Cons c cs)
    have "find_group lit cs = None" using Cons.prems by (auto split: if_splits option.splits)
    then have tail: "cs = u @ lit @ v \<Longrightarrow> lazy_until v = None" for u v using Cons.IH by blast
    have head: "c # cs = lit @ v \<Longrightarrow> lazy_until v = None" for v
      using Cons.prems find_group_at [of c cs lit v] by (auto split: option.splits)
    show ?case
    proof (intro allI impI)
      fix u v assume "c # cs = u @ lit @ v"
      then show "lazy_until v = None" using head tail by (cases u) auto
    qed
  qed (auto simp: lazy_until.simps)
next
  assume "lit \<noteq> []" and none: "\<forall>u v. s = u @ lit @ v \<longrightarrow> lazy_until v = None"
  then show "find_group lit s = None"
    using find_group_Some [of lit s] by (cases "find_group lit s") auto
qed

lemma find_group_iff:
  assumes "lit \<noteq> []"
  shows "find_group lit s = Some g \<longleftrightarrow>
    (\<exists>u. (\<exists>v. s = u @ lit @ v \<and> lazy_until v = Some g) \<and>
      (\<forall>u' g'. (\<exists>v. s = u' @ lit @ v \<and> lazy_until v = Some g') \<longrightarrow> length u \<le> length u'))"
    (is "?L g \<longleftrightarrow> ?R g")
proof
  have first: "?R h" if m: "find_group lit s = Some h" for h
  proof -
    obtain u v where uv: "s = u @ lit @ v" "lazy_until v = Some h"
      and f: "\<And>u' v'. s = u' @ lit @ v' \<Longrightarrow> length u' < length u \<Longrightarrow> lazy_until v' = None"
      using find_group_Some [OF m] by blast
    then have "length u \<le> length u'" if "s = u' @ lit @ v'" "lazy_until v' = Some g'" for u' v' g'
      using that by (metis not_less option.distinct(1))
    with uv show ?thesis by blast
  qed
  then show "?L g \<Longrightarrow> ?R g" by blast
  assume "?R g"
  then obtain u v where v: "s = u @ lit @ v" "lazy_until v = Some g"
    and least: "\<And>u' v' g'. s = u' @ lit @ v' \<Longrightarrow> lazy_until v' = Some g' \<Longrightarrow> length u \<le> length u'"
    by blast
  then obtain h where h: "find_group lit s = Some h"
    using find_group_None [OF assms, of s] by (cases "find_group lit s") auto
  then obtain u' v' where v': "s = u' @ lit @ v'" "lazy_until v' = Some h"
    and least': "length u' \<le> length u" using first v by blast
  have "length u = length u'" using least [OF v'] least' by simp
  then have "v = v'" using v(1) v'(1) by simp
  with v v' h show "?L g" by simp
qed

end
