(* ===== verification/Api_Types.thy ===== *)
theory Api_Types
  imports Go_Strings "HOL-Library.Word" "HOL-Library.List_Lexorder" "HOL-Library.Char_ord"
begin

text \<open>
  The data of the operator. The first part declares the fields that the repository uses of the
  Kubernetes API types (\<open>k8s.io/api/core/v1\<close>, \<open>k8s.io/apimachinery\<close>), the second the
  repository's own types: \<open>api/v1alpha1/livemigration_types.go\<close> and
  \<open>controllers/types/types.go\<close>. A Go \<open>int\<close> is a 64 bit word, an \<open>int32\<close> a
  32 bit word, a pointer an \<open>option\<close> whose \<open>None\<close> is nil, a \<open>map[string]string\<close>
  a \<open>gomap\<close> whose \<open>None\<close> is the nil map.
\<close>

type_synonym gomap = "(string \<rightharpoonup> string) option"

text \<open>Errors: the only thing the code asks of one is whether it is a \<open>NotFound\<close>.\<close>

datatype goerr = ErrNotFound (err_text: string) | ErrOther (err_text: string)

definition is_not_found :: "goerr \<Rightarrow> bool" where
  "is_not_found e = (case e of ErrNotFound _ \<Rightarrow> True | ErrOther _ \<Rightarrow> False)"

section \<open>Maps\<close>

definition map_get :: "gomap \<Rightarrow> string \<Rightarrow> string" where
  "map_get m k = (case m of None \<Rightarrow> [] | Some f \<Rightarrow> (case f k of None \<Rightarrow> [] | Some v \<Rightarrow> v))"

definition map_put :: "gomap \<Rightarrow> string \<Rightarrow> string \<Rightarrow> ('s, gomap) prog" where
  "map_put m k v = (case m of None \<Rightarrow> Panic NilMapWrite | Some f \<Rightarrow> Ret (Some (f(k \<mapsto> v))))"

lemma map_put_simps [go_run, simp]:
  "map_put None k v = Panic NilMapWrite"
  "map_put (Some f) k v = Ret (Some (f(k \<mapsto> v)))"
  by (simp_all add: map_put_def)

lemma map_get_simps [simp]:
  "map_get None k = []"
  "map_get (Some f) k = (case f k of None \<Rightarrow> [] | Some v \<Rightarrow> v)"
  by (simp_all add: map_get_def)

section \<open>Kubernetes objects\<close>

record objectMeta =
  om_Name :: string
  om_Namespace :: string
  om_GenerateName :: string
  om_Labels :: gomap
  om_Annotations :: gomap
  om_Finalizers :: "string list"
  om_DeletionTimestamp :: "nat option"
  om_OwnerReferences :: "string list"

definition meta0 :: objectMeta where
  "meta0 = \<lparr>om_Name = [], om_Namespace = [], om_GenerateName = [], om_Labels = None,
     om_Annotations = None, om_Finalizers = [], om_DeletionTimestamp = None,
     om_OwnerReferences = []\<rparr>"

text \<open>\<open>metav1.Time.IsZero\<close>: a nil pointer and the zero time are zero.\<close>

definition time_is_zero :: "nat option \<Rightarrow> bool" where
  "time_is_zero t \<longleftrightarrow> t = None \<or> t = Some 0"

record container =
  c_Name :: string
  c_Image :: string
  c_ImagePullPolicy :: string
  c_Ports :: "(string \<times> 32 word) list"
  c_VolumeMounts :: "(string \<times> string) list"
  c_Requests :: "(string \<times> string) list"
  c_Limits :: "(string \<times> string) list"

definition container0 :: container where
  "container0 = \<lparr>c_Name = [], c_Image = [], c_ImagePullPolicy = [], c_Ports = [],
     c_VolumeMounts = [], c_Requests = [], c_Limits = []\<rparr>"

record volume =
  v_Name :: string
  v_HostPath :: "string option"

record podSpec =
  ps_Containers :: "container list"
  ps_Volumes :: "volume list"
  ps_NodeSelector :: gomap
  ps_ShareProcessNamespace :: "bool option"

definition podSpec0 :: podSpec where
  "podSpec0 = \<lparr>ps_Containers = [], ps_Volumes = [], ps_NodeSelector = None,
     ps_ShareProcessNamespace = None\<rparr>"

record containerStatus =
  cs_Name :: string
  cs_ContainerID :: string
  cs_Ready :: bool

record podStatus =
  pst_Phase :: string
  pst_ContainerStatuses :: "containerStatus list"

definition podStatus0 :: podStatus where
  "podStatus0 = \<lparr>pst_Phase = [], pst_ContainerStatuses = []\<rparr>"

record pod =
  pod_Meta :: objectMeta
  pod_Spec :: podSpec
  pod_Status :: podStatus

definition pod0 :: pod where
  "pod0 = \<lparr>pod_Meta = meta0, pod_Spec = podSpec0, pod_Status = podStatus0\<rparr>"

record podTemplateSpec =
  pt_Meta :: objectMeta
  pt_Spec :: podSpec

definition podTemplateSpec0 :: podTemplateSpec where
  "podTemplateSpec0 = \<lparr>pt_Meta = meta0, pt_Spec = podSpec0\<rparr>"

record service =
  svc_Meta :: objectMeta
  svc_ClusterIP :: string
  svc_Ports :: "(string \<times> 32 word \<times> 32 word) list"
  svc_Selector :: gomap

record deployment =
  dep_APIVersion :: string
  dep_Kind :: string
  dep_Meta :: objectMeta
  dep_MatchLabels :: gomap
  dep_Replicas :: "32 word"
  dep_Template :: podTemplateSpec

record labelSelector =
  ls_MatchLabels :: gomap

section \<open>The types of the repository\<close>

record liveMigrationSpec =
  lms_Replicas :: "64 word"
  lms_SourcePod :: string
  lms_DestHost :: string
  lms_SnapshotPath :: string
  lms_Selector :: "labelSelector option"
  lms_Template :: podTemplateSpec
  lms_Action :: string

record liveMigrationStatus =
  lmst_State :: string
  lmst_CurrentRevision :: string
  lmst_ActivePod :: string

definition liveMigrationStatus0 :: liveMigrationStatus where
  "liveMigrationStatus0 = \<lparr>lmst_State = [], lmst_CurrentRevision = [], lmst_ActivePod = []\<rparr>"

record liveMigration =
  lm_Meta :: objectMeta
  lm_Spec :: liveMigrationSpec
  lm_Status :: liveMigrationStatus

record liveMigrationList =
  lml_Items :: "liveMigration list"

text \<open>\<open>types.Container\<close>: the identifier and the name of a running container.\<close>

record containerRef =
  cr_ID :: string
  cr_Name :: string

text \<open>
  A directory entry. \<open>os.ReadDir\<close> returns the entries sorted by name, so entries are
  ordered by their names, byte by byte.
\<close>

datatype dir_entry = DirEntry (entry_name: string)

instantiation dir_entry :: linorder
begin

definition less_eq_dir_entry :: "dir_entry \<Rightarrow> dir_entry \<Rightarrow> bool" where
  "less_eq_dir_entry a b \<longleftrightarrow> entry_name a \<le> entry_name b"

definition less_dir_entry :: "dir_entry \<Rightarrow> dir_entry \<Rightarrow> bool" where
  "less_dir_entry a b \<longleftrightarrow> entry_name a < entry_name b"

instance
proof
  fix a b c :: dir_entry
  show "a < b \<longleftrightarrow> a \<le> b \<and> \<not> b \<le> a"
    by (simp add: less_eq_dir_entry_def less_dir_entry_def less_le_not_le)
  show "a \<le> a" by (simp add: less_eq_dir_entry_def)
  show "a \<le> b \<Longrightarrow> b \<le> c \<Longrightarrow> a \<le> c" by (simp add: less_eq_dir_entry_def)
  show "a \<le> b \<Longrightarrow> b \<le> a \<Longrightarrow> a = b"
    by (cases a; cases b) (simp add: less_eq_dir_entry_def)
  show "a \<le> b \<or> b \<le> a" by (auto simp: less_eq_dir_entry_def)
qed

end

text \<open>A migration for concrete examples.\<close>

definition sample_migration :: liveMigration where
  "sample_migration = \<lparr>lm_Meta = meta0\<lparr>om_Name := ''mig'', om_Namespace := ''test''\<rparr>,
     lm_Spec = \<lparr>lms_Replicas = 3, lms_SourcePod = ''web'', lms_DestHost = ''node-2'',
       lms_SnapshotPath = ''/snap'', lms_Selector = None, lms_Template = podTemplateSpec0,
       lms_Action = ''live-migration''\<rparr>,
     lm_Status = liveMigrationStatus0\<rparr>"

end
