(* ===== verification/Kube.thy ===== *)
theory Kube
  imports Api_Types
begin

text \<open>
  The outside of the controller process: the calls it makes (Kubernetes API requests through
  \<open>client-go\<close> and the controller-runtime client, commands through \<open>os/exec\<close>, file
  system operations of package \<open>os\<close>, waits) and the environment, a record with one
  answer function per kind of call. None of that code is in the repository: the environment is
  an argument of every definition that makes a call. It also fixes what Go leaves open (the
  order in which \<open>range\<close> visits a map, which goroutine runs next, which ready case a
  \<open>select\<close> takes) and the number of iterations that the model follows of a loop with no
  bound of its own.
\<close>

section \<open>Calls\<close>

datatype exec_mode = Output | CombinedOutput | RunOnly

datatype call =
    PodsGet string string
  | PodsList string
  | PodsCreate string pod
  | PodsDelete string string
  | PodsWatch string string
  | ServicesGet string string
  | ServicesCreate string service
  | MigrationGet string string
  | ChildPodsList string gomap
  | PodUpdate pod
  | Exec exec_mode "string list"
  | ReadDir string
  | RemoveAll string
  | MkdirAll string
  | Chmod string nat
  | Chown string
  | EntryInfo string
  | SelectWait
  | Sleep nat

type_synonym history = "call list"

text \<open>
  What a watch delivers: events in order, and what comes after them. The channel is closed, or
  nothing comes any more (a receiver waits for ever), or events other than a deletion go on for
  ever. A stream that goes on after a deletion is given by its events up to there, because its
  reader stops at the deletion.
\<close>

datatype watch_event = Added | Modified | Deleted | Bookmark | WatchError

datatype watch_end = Closes | Silent | Endless

record watcher =
  w_events :: "watch_event list"
  w_end :: watch_end

section \<open>Environments\<close>

record env =
  podsGet :: "history \<Rightarrow> string \<Rightarrow> string \<Rightarrow> pod option \<times> goerr option"
  podsList :: "history \<Rightarrow> string \<Rightarrow> pod list option \<times> goerr option"
  podsCreate :: "history \<Rightarrow> string \<Rightarrow> pod \<Rightarrow> pod option \<times> goerr option"
  podsDelete :: "history \<Rightarrow> string \<Rightarrow> string \<Rightarrow> goerr option"
  podsWatch :: "history \<Rightarrow> string \<Rightarrow> string \<Rightarrow> watcher option \<times> goerr option"
  servicesGet :: "history \<Rightarrow> string \<Rightarrow> string \<Rightarrow> service option \<times> goerr option"
  servicesCreate :: "history \<Rightarrow> string \<Rightarrow> service \<Rightarrow> service option \<times> goerr option"
  migrationGet :: "history \<Rightarrow> string \<Rightarrow> string \<Rightarrow> goerr + liveMigration"
  childPodsList :: "history \<Rightarrow> string \<Rightarrow> gomap \<Rightarrow> goerr + pod list"
  podUpdate :: "history \<Rightarrow> pod \<Rightarrow> goerr option"
  execCmd :: "history \<Rightarrow> exec_mode \<Rightarrow> string list \<Rightarrow> string \<times> goerr option"
  readDir :: "history \<Rightarrow> string \<Rightarrow> dir_entry list \<times> goerr option"
  fileOp :: "history \<Rightarrow> call \<Rightarrow> goerr option"
  entryInfo :: "history \<Rightarrow> string \<Rightarrow> goerr + string"
  timeoutFires :: "history \<Rightarrow> bool"
  setControllerReference :: "liveMigration \<Rightarrow> objectMeta \<Rightarrow> goerr + objectMeta"
  rangeOrder :: "(string \<rightharpoonup> string) \<Rightarrow> string list"
  schedule :: "history \<Rightarrow> nat list"
  loopBound :: nat

text \<open>The calls, as the code makes them.\<close>

definition pods_Get :: "env \<Rightarrow> string \<Rightarrow> string \<Rightarrow> (call, 'm, pod option \<times> goerr option) go" where
  "pods_Get E ns name = perform (PodsGet ns name) (\<lambda>h. podsGet E h ns name)"

definition pods_List :: "env \<Rightarrow> string \<Rightarrow> (call, 'm, pod list option \<times> goerr option) go" where
  "pods_List E ns = perform (PodsList ns) (\<lambda>h. podsList E h ns)"

definition pods_Create :: "env \<Rightarrow> string \<Rightarrow> pod \<Rightarrow> (call, 'm, pod option \<times> goerr option) go" where
  "pods_Create E ns p = perform (PodsCreate ns p) (\<lambda>h. podsCreate E h ns p)"

definition pods_Delete :: "env \<Rightarrow> string \<Rightarrow> string \<Rightarrow> (call, 'm, goerr option) go" where
  "pods_Delete E ns name = perform (PodsDelete ns name) (\<lambda>h. podsDelete E h ns name)"

definition pods_Watch :: "env \<Rightarrow> string \<Rightarrow> string \<Rightarrow> (call, 'm, watcher option \<times> goerr option) go" where
  "pods_Watch E ns sel = perform (PodsWatch ns sel) (\<lambda>h. podsWatch E h ns sel)"

definition services_Get :: "env \<Rightarrow> string \<Rightarrow> string \<Rightarrow> (call, 'm, service option \<times> goerr option) go" where
  "services_Get E ns name = perform (ServicesGet ns name) (\<lambda>h. servicesGet E h ns name)"

definition services_Create :: "env \<Rightarrow> string \<Rightarrow> service \<Rightarrow> (call, 'm, service option \<times> goerr option) go" where
  "services_Create E ns v = perform (ServicesCreate ns v) (\<lambda>h. servicesCreate E h ns v)"

definition exec_cmd :: "env \<Rightarrow> exec_mode \<Rightarrow> string list \<Rightarrow> (call, 'm, string \<times> goerr option) go" where
  "exec_cmd E m args = perform (Exec m args) (\<lambda>h. execCmd E h m args)"

definition read_dir :: "env \<Rightarrow> string \<Rightarrow> (call, 'm, dir_entry list \<times> goerr option) go" where
  "read_dir E p = perform (ReadDir p) (\<lambda>h. readDir E h p)"

definition file_op :: "env \<Rightarrow> call \<Rightarrow> (call, 'm, goerr option) go" where
  "file_op E c = perform c (\<lambda>h. fileOp E h c)"

definition entry_info :: "env \<Rightarrow> dir_entry \<Rightarrow> (call, 'm, goerr + string) go" where
  "entry_info E d = perform (EntryInfo (entry_name d)) (\<lambda>h. entryInfo E h (entry_name d))"

definition sleep :: "nat \<Rightarrow> (call, 'm, unit) go" where
  "sleep n = perform (Sleep n) (\<lambda>_. ())"

text \<open>Goroutines started in a loop and awaited by a wait group, in the order of the environment.\<close>

definition wait_group :: "env \<Rightarrow> (call, 'm, unit) go list \<Rightarrow> (call, 'm, unit) go" where
  "wait_group E ts = bind_go (step (\<lambda>s. s) (\<lambda>s. schedule E (hist s))) (\<lambda>is. par is ts)"

lemmas call_defs =
  pods_Get_def pods_List_def pods_Create_def pods_Delete_def pods_Watch_def services_Get_def
  services_Create_def exec_cmd_def read_dir_def file_op_def entry_info_def sleep_def

lemmas [go_run] = call_defs wait_group_def

section \<open>A default environment\<close>

text \<open>
  Every lookup fails, every operation succeeds, every command prints nothing, a wait is over at
  once: the start point from which concrete environments are built by record update.
\<close>

definition env0 :: env where
  "env0 = \<lparr>
     podsGet = (\<lambda>h ns n. (Some pod0, Some (ErrNotFound ''not found''))),
     podsList = (\<lambda>h ns. (Some [], None)),
     podsCreate = (\<lambda>h ns p. (Some p, None)),
     podsDelete = (\<lambda>h ns n. None),
     podsWatch = (\<lambda>h ns sel. (Some \<lparr>w_events = [Deleted], w_end = Closes\<rparr>, None)),
     servicesGet = (\<lambda>h ns n. (None, Some (ErrNotFound ''not found''))),
     servicesCreate = (\<lambda>h ns v. (Some v, None)),
     migrationGet = (\<lambda>h ns n. Inl (ErrNotFound ''not found'')),
     childPodsList = (\<lambda>h ns l. Inr []),
     podUpdate = (\<lambda>h p. None),
     execCmd = (\<lambda>h m args. ([], None)),
     readDir = (\<lambda>h p. ([], None)),
     fileOp = (\<lambda>h c. None),
     entryInfo = (\<lambda>h n. Inr n),
     timeoutFires = (\<lambda>h. True),
     setControllerReference = (\<lambda>lm m. Inr m),
     rangeOrder = (\<lambda>m. []),
     schedule = (\<lambda>h. []),
     loopBound = 0\<rparr>"

abbreviation start :: "call world" where
  "start \<equiv> \<lparr>hist = []\<rparr>"

section \<open>Classes of calls\<close>

text \<open>Calls that change nothing in the cluster, on the node or in the file system.\<close>

fun read_only :: "call \<Rightarrow> bool" where
  "read_only (PodsGet _ _) = True"
| "read_only (PodsList _) = True"
| "read_only (PodsWatch _ _) = True"
| "read_only (ServicesGet _ _) = True"
| "read_only (MigrationGet _ _) = True"
| "read_only (ChildPodsList _ _) = True"
| "read_only (ReadDir _) = True"
| "read_only (EntryInfo _) = True"
| "read_only SelectWait = True"
| "read_only (Sleep _) = True"
| "read_only _ = False"

section \<open>Effects of the calls\<close>

lemma calls_in_call [go_calls]:
  "P (PodsGet ns name) \<Longrightarrow> calls_in P (pods_Get E ns name)"
  "P (PodsList ns) \<Longrightarrow> calls_in P (pods_List E ns)"
  "P (PodsCreate ns p) \<Longrightarrow> calls_in P (pods_Create E ns p)"
  "P (PodsDelete ns name) \<Longrightarrow> calls_in P (pods_Delete E ns name)"
  "P (PodsWatch ns sel) \<Longrightarrow> calls_in P (pods_Watch E ns sel)"
  "P (ServicesGet ns name) \<Longrightarrow> calls_in P (services_Get E ns name)"
  "P (ServicesCreate ns v) \<Longrightarrow> calls_in P (services_Create E ns v)"
  "P (Exec m args) \<Longrightarrow> calls_in P (exec_cmd E m args)"
  "P (ReadDir p') \<Longrightarrow> calls_in P (read_dir E p')"
  "P c \<Longrightarrow> calls_in P (file_op E c)"
  "P (EntryInfo (entry_name d)) \<Longrightarrow> calls_in P (entry_info E d)"
  "P (Sleep n) \<Longrightarrow> calls_in P (sleep n)"
  by (simp_all add: call_defs calls_in_perform)

lemma returns_call [go_returns]:
  "returns (pods_Get E ns name)" "returns (pods_List E ns)" "returns (pods_Create E ns p)"
  "returns (pods_Delete E ns name)" "returns (pods_Watch E ns sel)" "returns (services_Get E ns name)"
  "returns (services_Create E ns v)" "returns (exec_cmd E m args)" "returns (read_dir E p')"
  "returns (file_op E c)" "returns (entry_info E d)" "returns (sleep n)"
  by (auto simp: call_defs)

lemma returns_wait_group [go_returns]:
  "(\<And>t. t \<in> set ts \<Longrightarrow> returns t) \<Longrightarrow> returns (wait_group E ts)"
  unfolding wait_group_def by (intro go_returns)

lemma calls_in_wait_group [go_calls]:
  "(\<And>t. t \<in> set ts \<Longrightarrow> calls_in P t) \<Longrightarrow> calls_in P (wait_group E ts)"
  unfolding wait_group_def by (intro go_calls) (auto simp: guar_step_iff)

text \<open>
  Goroutines that always return: the wait group returns, and the calls made are those that the
  goroutines make one by one, in some order.
\<close>

lemma wait_group_emits:
  assumes "\<And>t. t \<in> set ts \<Longrightarrow> returns t" and "\<And>t. t \<in> set ts \<Longrightarrow> calls_in (\<lambda>_. True) t"
  obtains s' css cs where "run (wait_group E ts) s = (Done (), s')"
    and "list_all2 (\<lambda>t. emits t ()) ts css" and "hist s' = hist s @ cs"
    and "mset cs = sum_list (map mset css)"
proof -
  have "returns (par (schedule E (hist s)) ts)" using assms(1) by (rule returns_par)
  then obtain s' where s': "run (par (schedule E (hist s)) ts) s = (Done (), s')"
    by (rule returns_run [where s = s]) simp
  then have "interleaves ts s s'" by (rule par_sound)
  from interleaves_emits [OF this assms(2)] obtain css cs
    where "list_all2 (\<lambda>t. emits t ()) ts css" "hist s' = hist s @ cs"
      "mset cs = sum_list (map mset css)" by blast
  with s' show thesis using that by (simp add: wait_group_def)
qed

lemma list_all2_map_eq: "list_all2 (\<lambda>x y. y = f x) xs ys \<longleftrightarrow> ys = map f xs"
  by (auto simp: list_all2_conv_all_nth intro: nth_equalityI)

lemma sum_list_mset_singletons: "sum_list (map mset (map (\<lambda>x. [f x]) xs)) = mset (map f xs)"
  by (induction xs) auto

lemma emits_exec_unit [simp]:
  "emits (bind_go (exec_cmd E m args) (\<lambda>_. Ret ())) x cs \<longleftrightarrow> cs = [Exec m args]"
  by (auto simp: exec_cmd_def emits_bind emits_simps) (metis surj_pair)

end
