(* ===== verification/Naming.thy ===== *)
theory Naming
  imports Kube
begin

text \<open>
  The names read off a checkpoint archive's path: \<open>RetrievePodName\<close> and
  \<open>RetrieveContainerName\<close> of \<open>controllers/utils/utils.go\<close>. The lemmas say what each
  returns on every path, panics included, and the locale \<open>checkpoint_naming\<close> states the
  contract under which a restored image and pod carry the names of what was checkpointed; its
  interpretation gives the archives for which the two functions meet it.
\<close>

section \<open>Definitions\<close>

definition RetrievePodName :: "string \<Rightarrow> string" where
  "RetrievePodName path =
     (case find_checkpoint_match path of None \<Rightarrow> [] | Some g \<Rightarrow> g)"

text \<open>
  The loop of \<open>RetrieveContainerName\<close>: \<open>container_name_loop parts n\<close> is the iteration with
  \<open>i = n - 1\<close>. The slice accesses panic when the index is out of range.
\<close>

primrec container_name_loop :: "string list \<Rightarrow> nat \<Rightarrow> ('s, string) prog" where
  "container_name_loop parts 0 = Ret []"
| "container_name_loop parts (Suc i) =
     bind_go (index parts (int i)) (\<lambda>part.
       if part = ''2024'' then
         (if i > 0 then
            bind_go (index parts (int i - 2)) (\<lambda>a.
            bind_go (index parts (int i - 1)) (\<lambda>b.
              Ret (a @ ''-'' @ b)))
          else Ret [])
       else container_name_loop parts i)"

definition RetrieveContainerName :: "string \<Rightarrow> ('s, string) prog" where
  "RetrieveContainerName path =
     (let parts = split path ''-'' in container_name_loop parts (length parts))"

text \<open>
  The name the kubelet gives an archive, \<open>checkpoint-<pod>_<namespace>-<container>-<time>.tar\<close>:
  \<open>ck_Time\<close> is the text after the year and a dash.
\<close>

record checkpoint_id =
  ck_Pod :: string
  ck_Namespace :: string
  ck_Container :: string
  ck_Year :: string
  ck_Time :: string

definition kubelet_file :: "checkpoint_id \<Rightarrow> string" where
  "kubelet_file k = ''checkpoint-'' @ ck_Pod k @ ''_'' @ ck_Namespace k @ ''-'' @
     ck_Container k @ ''-'' @ ck_Year k @ ''-'' @ ck_Time k"

text \<open>A time suffix no part of which is the literal the loop looks for.\<close>

definition ordinary_time :: "checkpoint_id \<Rightarrow> bool" where
  "ordinary_time k \<longleftrightarrow> ''2024'' \<notin> set (split (ck_Time k) ''-'')"

definition ordinary_pod :: "checkpoint_id \<Rightarrow> bool" where
  "ordinary_pod k \<longleftrightarrow> ck_Pod k \<noteq> [] \<and> CHR ''_'' \<notin> set (ck_Pod k) \<and> CHR 0x0A \<notin> set (ck_Pod k)"

text \<open>Archives whose container name has exactly one dash, taken in 2024.\<close>

definition one_dash_archive :: "checkpoint_id \<Rightarrow> bool" where
  "one_dash_archive k \<longleftrightarrow> ordinary_pod k \<and> ordinary_time k \<and> ck_Year k = ''2024'' \<and>
     length (split (ck_Container k) ''-'') = 2"

text \<open>
  The specification of the regular expression \<open>checkpoint-(.+?)_\<close>: a match of group
  \<open>g\<close> that starts after the text \<open>u\<close>, with the group as short as possible.
\<close>

definition regex_match :: "string \<Rightarrow> string \<Rightarrow> string \<Rightarrow> bool" where
  "regex_match path u g \<longleftrightarrow>
     (\<exists>c w rest. path = u @ ''checkpoint-'' @ g @ ''_'' @ rest \<and> g = c # w \<and>
        CHR ''_'' \<notin> set w \<and> CHR 0x0A \<notin> set g)"

section \<open>The contract of a naming scheme\<close>

locale checkpoint_naming =
  fixes file_of :: "'k \<Rightarrow> string"
    and pod_of :: "'k \<Rightarrow> string"
    and container_of :: "'k \<Rightarrow> string"
    and valid :: "'k \<Rightarrow> bool"
    and read_pod :: "string \<Rightarrow> string"
    and read_container :: "string \<Rightarrow> (unit, string) prog"
    and dir :: string
  assumes read_pod_file: "valid k \<Longrightarrow> read_pod (dir @ file_of k) = pod_of k"
    and read_container_file: "valid k \<Longrightarrow> run (read_container (dir @ file_of k)) s = (Done (container_of k), s)"
begin

lemma names_determined:
  assumes "valid j" and "valid k" and "file_of j = file_of k"
  shows "pod_of j = pod_of k \<and> container_of j = container_of k"
  using assms read_pod_file [of j] read_pod_file [of k] read_container_file [of j "()"]
    read_container_file [of k "()"] by simp

lemma distinct_containers_distinct_files:
  "valid j \<Longrightarrow> valid k \<Longrightarrow> container_of j \<noteq> container_of k \<Longrightarrow> file_of j \<noteq> file_of k"
  using names_determined by blast

end

section \<open>The container name\<close>

text \<open>The position at which the loop stops: the last part that is the literal year.\<close>

fun last_year :: "string list \<Rightarrow> nat \<Rightarrow> nat option" where
  "last_year parts 0 = None"
| "last_year parts (Suc i) = (if parts ! i = ''2024'' then Some i else last_year parts i)"

lemma run_container_name_loop:
  "n \<le> length parts \<Longrightarrow> run (container_name_loop parts n) s =
     (case last_year parts n of
        None \<Rightarrow> (Done [], s)
      | Some i \<Rightarrow>
          if i = 0 then (Done [], s)
          else if i = 1 then (Panicked IndexOutOfRange, s)
          else (Done (parts ! (i - 2) @ ''-'' @ parts ! (i - 1)), s))"
proof (induction n)
  case (Suc i)
  show ?case
  proof (cases "parts ! i = ''2024''")
    case True
    have *: "nat (int i - 2) = i - 2" "nat (int i - 1) = i - 1" by auto
    show ?thesis using Suc.prems True by (auto simp: run_index *)
  next
    case False
    with Suc show ?thesis by (simp add: run_index)
  qed
qed simp

lemma last_year_Some:
  "last_year parts n = Some i \<longleftrightarrow>
     i < n \<and> parts ! i = ''2024'' \<and> (\<forall>j. i < j \<longrightarrow> j < n \<longrightarrow> parts ! j \<noteq> ''2024'')"
proof (induction n)
  case (Suc n)
  then show ?case
    by (auto simp: less_Suc_eq)
qed simp

lemma last_year_None: "last_year parts n = None \<longleftrightarrow> (\<forall>j < n. parts ! j \<noteq> ''2024'')"
  by (induction n) (auto simp: less_Suc_eq)

lemma last_year_append:
  assumes "''2024'' \<notin> set ys"
  shows "last_year (xs @ ''2024'' # ys) (length (xs @ ''2024'' # ys)) = Some (length xs)"
  unfolding last_year_Some
proof (intro conjI allI impI)
  fix j assume "length xs < j" and "j < length (xs @ ''2024'' # ys)"
  then have "(xs @ ''2024'' # ys) ! j = ys ! (j - length xs - 1)" and "j - length xs - 1 < length ys"
    by (auto simp: nth_append nth_Cons')
  then show "(xs @ ''2024'' # ys) ! j \<noteq> ''2024''" using assms by (metis nth_mem)
qed auto

lemma run_RetrieveContainerName:
  "run (RetrieveContainerName path) s =
     (let parts = split path ''-'' in
      case last_year parts (length parts) of
        None \<Rightarrow> (Done [], s)
      | Some i \<Rightarrow>
          if i = 0 then (Done [], s)
          else if i = 1 then (Panicked IndexOutOfRange, s)
          else (Done (parts ! (i - 2) @ ''-'' @ parts ! (i - 1)), s))"
  by (simp only: RetrieveContainerName_def Let_def run_container_name_loop [OF order_refl])

lemma RetrieveContainerName_parts:
  assumes "split path ''-'' = xs @ [a, b, ''2024''] @ ys" and "''2024'' \<notin> set ys"
  shows "run (RetrieveContainerName path) s = (Done (a @ ''-'' @ b), s)"
proof -
  have "split path ''-'' = (xs @ [a, b]) @ ''2024'' # ys" using assms(1) by simp
  moreover have "((xs @ [a, b]) @ ''2024'' # ys) ! length xs = a"
    and "((xs @ [a, b]) @ ''2024'' # ys) ! Suc (length xs) = b"
    by (simp_all add: nth_append)
  ultimately show ?thesis
    using last_year_append [OF assms(2), of "xs @ [a, b]"]
    by (simp only: run_RetrieveContainerName Let_def) simp
qed

lemma calls_in_RetrieveContainerName [go_calls]: "guar R (RetrieveContainerName path)"
proof -
  have "guar R (container_name_loop parts n)" for parts :: "string list" and n
    by (induction n) (auto intro!: go_calls)
  then show ?thesis by (simp add: RetrieveContainerName_def Let_def)
qed

section \<open>The pod name\<close>

lemma RetrievePodName_Some:
  "find_checkpoint_match path = Some g \<Longrightarrow> RetrievePodName path = g"
  by (simp add: RetrievePodName_def)

lemma lazy_until_pod:
  "p \<noteq> [] \<Longrightarrow> CHR ''_'' \<notin> set p \<Longrightarrow> CHR 0x0A \<notin> set p \<Longrightarrow> lazy_until (p @ CHR ''_'' # rest) = Some p"
  unfolding lazy_until_Some by (cases p) auto

lemma find_group_dir:
  "find_group ''checkpoint-'' (''/checkpoints/'' @ ''checkpoint-'' @ v) =
   find_group ''checkpoint-'' (''checkpoint-'' @ v)"
  by simp

lemma RetrievePodName_file:
  assumes "ordinary_pod k"
  shows "RetrievePodName (kubelet_file k) = ck_Pod k"
    and "RetrievePodName (''/checkpoints/'' @ kubelet_file k) = ck_Pod k"
proof -
  let ?rest = "ck_Namespace k @ ''-'' @ ck_Container k @ ''-'' @ ck_Year k @ ''-'' @ ck_Time k"
  have lazy: "lazy_until (ck_Pod k @ CHR ''_'' # ?rest) = Some (ck_Pod k)"
    using assms by (simp add: lazy_until_pod ordinary_pod_def)
  then have "find_group ''checkpoint-'' (''checkpoint-'' @ (ck_Pod k @ CHR ''_'' # ?rest)) = Some (ck_Pod k)"
    by (intro find_group_prefix) auto
  then have m: "find_group ''checkpoint-'' (kubelet_file k) = Some (ck_Pod k)"
    by (simp add: kubelet_file_def del: find_group.simps)
  then show "RetrievePodName (kubelet_file k) = ck_Pod k"
    by (simp add: RetrievePodName_def find_checkpoint_match_def)
  have "find_group ''checkpoint-'' (''/checkpoints/'' @ kubelet_file k) = Some (ck_Pod k)"
    using m by (simp only: kubelet_file_def find_group_dir)
  then show "RetrievePodName (''/checkpoints/'' @ kubelet_file k) = ck_Pod k"
    by (simp only: RetrievePodName_def find_checkpoint_match_def option.case)
qed

section \<open>Kubelet archives\<close>

lemma split_kubelet_file:
  "split (dir @ kubelet_file k) ''-'' =
     split (dir @ ''checkpoint'') ''-'' @ split (ck_Pod k @ ''_'' @ ck_Namespace k) ''-'' @
     split (ck_Container k) ''-'' @ split (ck_Year k) ''-'' @ split (ck_Time k) ''-''"
proof -
  have "dir @ kubelet_file k =
      (dir @ ''checkpoint'') @ CHR ''-'' # (ck_Pod k @ ''_'' @ ck_Namespace k) @
      CHR ''-'' # ck_Container k @ CHR ''-'' # ck_Year k @ CHR ''-'' # ck_Time k"
    by (simp add: kubelet_file_def)
  then show ?thesis by (simp only: split_char_app)
qed

lemma RetrieveContainerName_one_dash:
  assumes "one_dash_archive k"
  shows "run (RetrieveContainerName (dir @ kubelet_file k)) s = (Done (ck_Container k), s)"
proof -
  obtain a b where ab: "split (ck_Container k) ''-'' = [a, b]"
    using assms by (auto simp: one_dash_archive_def length_Suc_conv numeral_2_eq_2)
  then have c: "ck_Container k = a @ ''-'' @ b"
    using split_join [of "''-''" "ck_Container k"] by simp
  have "split (ck_Year k) ''-'' = [''2024'']"
    using assms by (simp add: one_dash_archive_def split_char_single)
  then have "split (dir @ kubelet_file k) ''-'' =
      (split (dir @ ''checkpoint'') ''-'' @ split (ck_Pod k @ ''_'' @ ck_Namespace k) ''-'') @
      [a, b, ''2024''] @ split (ck_Time k) ''-''"
    using ab by (simp add: split_kubelet_file)
  from RetrieveContainerName_parts [OF this] show ?thesis
    using assms c by (simp add: one_dash_archive_def ordinary_time_def)
qed

interpretation kubelet: checkpoint_naming kubelet_file ck_Pod ck_Container one_dash_archive
  RetrievePodName RetrieveContainerName "''/checkpoints/''"
proof unfold_locales
  show "RetrievePodName (''/checkpoints/'' @ kubelet_file k) = ck_Pod k" if "one_dash_archive k" for k
    using that by (intro RetrievePodName_file) (simp add: one_dash_archive_def)
qed (rule RetrieveContainerName_one_dash)

section \<open>Properties\<close>

lemma regex_match_lazy:
  "regex_match path u g \<longleftrightarrow> (\<exists>v. path = u @ ''checkpoint-'' @ v \<and> lazy_until v = Some g)"
  unfolding regex_match_def lazy_until_Some by auto

lemma find_checkpoint_match_iff:
  "find_checkpoint_match path = Some g \<longleftrightarrow>
     (\<exists>u. regex_match path u g \<and> (\<forall>u' g'. regex_match path u' g' \<longrightarrow> length u \<le> length u'))"
  unfolding find_checkpoint_match_def regex_match_lazy by (rule find_group_iff) simp

text \<open>C33: \<open>RetrievePodName\<close> returns a name exactly when the regular expression
  \<open>checkpoint-(.+?)_\<close> matches the path, and then the group of the leftmost match with the
  group as short as possible.\<close>

theorem RetrievePodName_leftmost_shortest:
  "(RetrievePodName path = g \<and> g \<noteq> []) \<longleftrightarrow>
     (\<exists>u. regex_match path u g \<and> (\<forall>u' g'. regex_match path u' g' \<longrightarrow> length u \<le> length u'))"
proof -
  have "g \<noteq> []" if "find_checkpoint_match path = Some g"
    using that by (auto simp: find_checkpoint_match_iff regex_match_def)
  then show ?thesis
    unfolding find_checkpoint_match_iff [symmetric]
    by (auto simp: RetrievePodName_def split: option.splits)
qed

theorem RetrievePodName_leftmost_shortest_witness:
  "\<exists>u. regex_match ''checkpoint-web_test-app-1-2024-05.tar'' u ''web'' \<and>
     (\<forall>u' g'. regex_match ''checkpoint-web_test-app-1-2024-05.tar'' u' g' \<longrightarrow> length u \<le> length u')"
proof -
  have "RetrievePodName ''checkpoint-web_test-app-1-2024-05.tar'' = ''web''" by code_simp
  then show ?thesis
    using RetrievePodName_leftmost_shortest [of "''checkpoint-web_test-app-1-2024-05.tar''" "''web''"]
    by simp
qed

text \<open>C10: for an archive named by the kubelet, taken in 2024, of a container whose name has
  exactly one dash, \<open>RetrieveContainerName\<close> and \<open>RetrievePodName\<close> read back the
  container and the pod that were checkpointed.\<close>

theorem archive_names_roundtrip:
  assumes "one_dash_archive k"
  shows "RetrievePodName (''/checkpoints/'' @ kubelet_file k) = ck_Pod k \<and>
    run (RetrieveContainerName (''/checkpoints/'' @ kubelet_file k)) s = (Done (ck_Container k), s)"
  by (intro conjI kubelet.read_pod_file RetrieveContainerName_one_dash assms)

definition sample_archive :: checkpoint_id where
  "sample_archive = \<lparr>ck_Pod = ''web'', ck_Namespace = ''test'', ck_Container = ''app-1'',
     ck_Year = ''2024'', ck_Time = ''05-01T10:00:00Z.tar''\<rparr>"

lemma sample_archive_ok: "one_dash_archive sample_archive"
  unfolding one_dash_archive_def ordinary_pod_def ordinary_time_def sample_archive_def by code_simp

theorem archive_names_roundtrip_witness:
  "RetrievePodName (''/checkpoints/'' @ kubelet_file sample_archive) = ''web'' \<and>
   run (RetrieveContainerName (''/checkpoints/'' @ kubelet_file sample_archive)) () = (Done ''app-1'', ())"
  using archive_names_roundtrip [OF sample_archive_ok, of "()"] by (simp add: sample_archive_def)

text \<open>\<open>RetrieveContainerName\<close> panics with an index out of range exactly on the paths
  whose second dash-separated part is the last part equal to \<open>2024\<close>.\<close>

lemma RetrieveContainerName_panics:
  "fst (run (RetrieveContainerName path) s) = Panicked IndexOutOfRange \<longleftrightarrow>
     (\<exists>a ys. split path ''-'' = a # ''2024'' # ys \<and> ''2024'' \<notin> set ys)"
proof -
  define parts where "parts = split path ''-''"
  have "fst (run (RetrieveContainerName path) s) = Panicked IndexOutOfRange \<longleftrightarrow>
      last_year parts (length parts) = Some 1"
    by (auto simp: run_RetrieveContainerName parts_def Let_def split: option.split)
  also have "\<dots> \<longleftrightarrow> (\<exists>a ys. parts = a # ''2024'' # ys \<and> ''2024'' \<notin> set ys)"
  proof
    assume "last_year parts (length parts) = Some 1"
    then have len: "1 < length parts" and year: "parts ! 1 = ''2024''"
      and none: "\<And>j. 1 < j \<Longrightarrow> j < length parts \<Longrightarrow> parts ! j \<noteq> ''2024''"
      by (auto simp: last_year_Some)
    then obtain a b ys where p: "parts = a # b # ys"
      by (cases parts; cases "tl parts") auto
    have "''2024'' \<notin> set ys"
    proof
      assume "''2024'' \<in> set ys"
      then obtain j where "j < length ys" "ys ! j = ''2024''" by (auto simp: in_set_conv_nth)
      then show False using none [of "j + 2"] p by simp
    qed
    with p year show "\<exists>a ys. parts = a # ''2024'' # ys \<and> ''2024'' \<notin> set ys" by simp
  next
    assume "\<exists>a ys. parts = a # ''2024'' # ys \<and> ''2024'' \<notin> set ys"
    then show "last_year parts (length parts) = Some 1"
      using last_year_append [of _ "[_]"] by fastforce
  qed
  finally show ?thesis by (simp add: parts_def)
qed

text \<open>When the container's name has no dash, \<open>RetrieveContainerName\<close> does not
  return it: it prefixes the last dash-separated part of the pod and namespace text.\<close>

lemma RetrieveContainerName_dash_free:
  assumes "ck_Year k = ''2024''" and "ordinary_time k" and "CHR ''-'' \<notin> set (ck_Container k)"
  shows "run (RetrieveContainerName (dir @ kubelet_file k)) s =
      (Done (last (split (ck_Pod k @ ''_'' @ ck_Namespace k) ''-'') @ ''-'' @ ck_Container k), s)"
    (is "_ = (Done (?w @ _), _)")
proof -
  let ?ps = "split (ck_Pod k @ ''_'' @ ck_Namespace k) ''-''"
  have "?ps = butlast ?ps @ [?w]" by simp
  moreover have "split (ck_Container k) ''-'' = [ck_Container k]" and "split (ck_Year k) ''-'' = [''2024'']"
    using assms by (simp_all add: split_char_single)
  ultimately have "split (dir @ kubelet_file k) ''-'' =
      (split (dir @ ''checkpoint'') ''-'' @ butlast ?ps) @
      [?w, ck_Container k, ''2024''] @ split (ck_Time k) ''-''"
    unfolding split_kubelet_file by (metis append.assoc append_Cons append_Nil)
  from RetrieveContainerName_parts [OF this] show ?thesis
    using assms(2) by (simp add: ordinary_time_def)
qed

lemma RetrieveContainerName_dash_free_witness:
  "run (RetrieveContainerName (''/checkpoints/'' @
      kubelet_file (sample_archive\<lparr>ck_Container := ''tomcat''\<rparr>))) () = (Done ''web_test-tomcat'', ())"
proof -
  let ?k = "sample_archive\<lparr>ck_Container := ''tomcat''\<rparr>"
  have "ck_Year ?k = ''2024''" and "ordinary_time ?k" and "CHR ''-'' \<notin> set (ck_Container ?k)"
    using sample_archive_ok
    by (simp_all add: sample_archive_def one_dash_archive_def ordinary_time_def)
  from RetrieveContainerName_dash_free [OF this, of "''/checkpoints/''" "()"] show ?thesis
    by (simp add: sample_archive_def split_char_single)
qed

text \<open>An archive of any other year has no container name: the result is the empty text.\<close>

lemma RetrieveContainerName_other_year:
  assumes "''2024'' \<notin> set (split (dir @ kubelet_file k) ''-'')"
  shows "run (RetrieveContainerName (dir @ kubelet_file k)) s = (Done [], s)"
proof -
  have "last_year (split (dir @ kubelet_file k) ''-'') (length (split (dir @ kubelet_file k) ''-'')) = None"
    unfolding last_year_None using assms by (metis nth_mem)
  then show ?thesis by (simp add: run_RetrieveContainerName)
qed

lemma RetrieveContainerName_other_year_witness:
  "run (RetrieveContainerName (''/checkpoints/'' @ kubelet_file (sample_archive\<lparr>ck_Year := ''2025''\<rparr>))) () =
     (Done [], ())"
proof -
  have "''2024'' \<notin> set (split (''/checkpoints/'' @ kubelet_file (sample_archive\<lparr>ck_Year := ''2025''\<rparr>)) ''-'')"
    unfolding sample_archive_def kubelet_file_def by code_simp
  then show ?thesis by (rule RetrieveContainerName_other_year)
qed

end
