(* ===== verification/Utils.thy ===== *)
theory Utils
  imports Naming
begin

text \<open>
  \<open>controllers/utils/utils.go\<close>: lookups of pods and services, the list of running containers,
  and the four waits of the controller (for a container to be ready, for a pod to be gone, for
  the dummy service to answer, and the address of that service). Loops without a bound of
  their own follow \<open>loopBound\<close> iterations of the environment.
\<close>

section \<open>Definitions\<close>

text \<open>The loop of \<open>GetActualRunningPod\<close>, with its counter and its two lists.\<close>

fun running_loop :: "pod list \<Rightarrow> nat \<times> pod list \<times> pod list \<Rightarrow> nat \<times> pod list \<times> pod list" where
  "running_loop [] acc = acc"
| "running_loop (p # ps) (n, running, deleting) =
     (if \<not> time_is_zero (om_DeletionTimestamp (pod_Meta p))
      then running_loop ps (n, running, deleting @ [p])
      else running_loop ps (Suc n, running @ [p], deleting))"

definition GetActualRunningPod :: "pod list \<Rightarrow> nat \<times> pod list \<times> pod list" where
  "GetActualRunningPod childPods = running_loop childPods (0, [], [])"

definition CheckPodExist :: "env \<Rightarrow> string \<Rightarrow> string \<Rightarrow> (call, 'm, pod option \<times> goerr option) go" where
  "CheckPodExist E name ns =
     bind_go (pods_Get E ns name) (\<lambda>(existingPod, err).
       if err \<noteq> None then Ret (None, err)
       else bind_go (deref existingPod) (\<lambda>_. Ret (existingPod, None)))"

definition GetSourcePodTemplate :: "env \<Rightarrow> string \<Rightarrow> string \<Rightarrow> (call, 'm, podTemplateSpec option \<times> goerr option) go" where
  "GetSourcePodTemplate E sourcePodName ns =
     bind_go (CheckPodExist E sourcePodName ns) (\<lambda>(retrievedPod, err).
       case retrievedPod of
         None \<Rightarrow> Ret (None, err)
       | Some copyPod \<Rightarrow>
           Ret (Some \<lparr>pt_Meta = pod_Meta copyPod,
                      pt_Spec = podSpec0\<lparr>ps_Containers := ps_Containers (pod_Spec copyPod),
                                         ps_Volumes := ps_Volumes (pod_Spec copyPod)\<rparr>\<rparr>, None))"

text \<open>The two nested loops of \<open>PrintContainerIDs\<close>; the first malformed identifier ends both.\<close>

fun status_loop :: "containerStatus list \<Rightarrow> containerRef list \<Rightarrow> goerr + containerRef list" where
  "status_loop [] containers = Inr containers"
| "status_loop (cs # rest) containers =
     (let idParts = split (cs_ContainerID cs) ''//'' in
      if length idParts < 2 then
        Inl (ErrOther (''invalid container ID format: '' @ cs_ContainerID cs))
      else status_loop rest (containers @ [\<lparr>cr_ID = idParts ! 1, cr_Name = cs_Name cs\<rparr>]))"

fun pods_loop :: "pod list \<Rightarrow> containerRef list \<Rightarrow> goerr + containerRef list" where
  "pods_loop [] containers = Inr containers"
| "pods_loop (p # ps) containers =
     (case status_loop (pst_ContainerStatuses (pod_Status p)) containers of
        Inl e \<Rightarrow> Inl e
      | Inr containers' \<Rightarrow> pods_loop ps containers')"

definition PrintContainerIDs :: "env \<Rightarrow> string \<Rightarrow> (call, 'm, containerRef list \<times> goerr option) go" where
  "PrintContainerIDs E ns =
     bind_go (pods_List E ns) (\<lambda>(pods, err).
       case err of
         Some e \<Rightarrow> Ret ([], Some (ErrOther (''failed to list pods: '' @ err_text e)))
       | None \<Rightarrow>
           bind_go (deref pods) (\<lambda>items.
             case pods_loop items [] of
               Inl e \<Rightarrow> Ret ([], Some e)
             | Inr containers \<Rightarrow> Ret (containers, None)))"

definition checkContainerReady :: "env \<Rightarrow> string \<Rightarrow> string \<Rightarrow> string \<Rightarrow> (call, 'm, goerr option) go" where
  "checkContainerReady E podName ns containerName =
     bind_go (pods_Get E ns podName) (\<lambda>(pod, err).
       if err \<noteq> None then Ret err
       else bind_go (deref pod) (\<lambda>p.
         if list_ex (\<lambda>cs. cs_Name cs = containerName \<and> cs_Ready cs) (pst_ContainerStatuses (pod_Status p))
         then Ret None
         else Ret (Some (ErrOther (''container '' @ containerName @ '' in pod '' @ podName @ '' is not ready yet'')))))"

text \<open>
  \<open>WaitForContainerReady\<close>: a \<open>select\<close> on the timer and the ticker, repeated. Which of
  them fires is the environment's answer to \<open>SelectWait\<close>.
\<close>

primrec container_ready_loop :: "env \<Rightarrow> string \<Rightarrow> string \<Rightarrow> string \<Rightarrow> nat \<Rightarrow> (call, 'm, goerr option) go" where
  "container_ready_loop E podName ns containerName 0 = NoFuel"
| "container_ready_loop E podName ns containerName (Suc n) =
     bind_go (perform SelectWait (timeoutFires E)) (\<lambda>timeout.
       if timeout then
         Ret (Some (ErrOther (''timed out waiting for container '' @ containerName @
                              '' in pod '' @ podName @ '' to become ready'')))
       else
         bind_go (checkContainerReady E podName ns containerName) (\<lambda>err.
           if err = None then Ret None
           else container_ready_loop E podName ns containerName n))"

definition WaitForContainerReady :: "env \<Rightarrow> string \<Rightarrow> string \<Rightarrow> string \<Rightarrow> (call, 'm, goerr option) go" where
  "WaitForContainerReady E podName ns containerName =
     container_ready_loop E podName ns containerName (loopBound E)"

text \<open>
  The receive loop of \<open>WaitForPodDeletion\<close> over the events of the watch channel. It goes round for
  ever on an endless stream without a deletion: every bound on its rounds is spent.
\<close>

fun deletion_loop :: "string \<Rightarrow> watch_event list \<Rightarrow> watch_end \<Rightarrow> ('s, goerr option) prog" where
  "deletion_loop podName [] ending =
     (case ending of
        Closes \<Rightarrow> Ret (Some (ErrOther (''pod '' @ podName @ '' not found or already deleted'')))
      | Silent \<Rightarrow> block
      | Endless \<Rightarrow> NoFuel)"
| "deletion_loop podName (event # events) ending =
     (if event = Deleted then Ret None else deletion_loop podName events ending)"

definition WaitForPodDeletion :: "env \<Rightarrow> string \<Rightarrow> string \<Rightarrow> (call, 'm, goerr option) go" where
  "WaitForPodDeletion E podName ns =
     bind_go (pods_Watch E ns (''metadata.name='' @ podName)) (\<lambda>(w, err).
       bind_go (deref w) (\<lambda>w.
         deletion_loop podName (w_events w) (w_end w)))"

definition PushDockerImage :: "env \<Rightarrow> string \<Rightarrow> string \<Rightarrow> string \<Rightarrow> (call, 'm, unit) go" where
  "PushDockerImage E localCheckpointPath containerName podName =
     (let remoteCheckpointPath = ''172.16.3.75:5000/checkpoint-images:'' @ containerName in
      bind_go (exec_cmd E RunOnly [''sudo'', ''buildah'', ''push'', ''--tls-verify=false'',
                 localCheckpointPath, remoteCheckpointPath]) (\<lambda>_. Ret ()))"

definition GetDummyServiceIPAndPort :: "env \<Rightarrow> string \<Rightarrow> (call, 'm, string \<times> 32 word) go" where
  "GetDummyServiceIPAndPort E ns =
     bind_go (services_Get E ns ''dummy-service'') (\<lambda>(dummyService, err).
       bind_go (deref dummyService) (\<lambda>svc.
         bind_go (index (svc_Ports svc) 0) (\<lambda>(name, port, target).
           Ret (svc_ClusterIP svc, port))))"

definition service_url :: "string \<times> 32 word \<Rightarrow> string \<Rightarrow> string" where
  "service_url addr path = ''http://'' @ fst addr @ '':'' @ show_int (sint (snd addr)) @ path"

primrec service_ready_loop :: "env \<Rightarrow> string \<Rightarrow> string \<Rightarrow> nat \<Rightarrow> (call, 'm, unit) go" where
  "service_ready_loop E serviceName ns 0 = NoFuel"
| "service_ready_loop E serviceName ns (Suc n) =
     bind_go (services_Get E ns serviceName) (\<lambda>(_, err).
       bind_go (if err = None then
                  bind_go (GetDummyServiceIPAndPort E ns) (\<lambda>addr.
                  bind_go (exec_cmd E Output [''curl'', service_url addr ''/'']) (\<lambda>(output, _).
                    Ret (contains output ''not found'')))
                else Ret False) (\<lambda>ready.
         if ready then Ret ()
         else bind_go (sleep 5) (\<lambda>_. service_ready_loop E serviceName ns n)))"

definition WaitForServiceReady :: "env \<Rightarrow> string \<Rightarrow> string \<Rightarrow> (call, 'm, unit) go" where
  "WaitForServiceReady E serviceName ns = service_ready_loop E serviceName ns (loopBound E)"

section \<open>Running pods and container identifiers\<close>

lemma running_loop_filter:
  "running_loop ps (n, rs, ds) =
     (n + length (filter (\<lambda>p. time_is_zero (om_DeletionTimestamp (pod_Meta p))) ps),
      rs @ filter (\<lambda>p. time_is_zero (om_DeletionTimestamp (pod_Meta p))) ps,
      ds @ filter (\<lambda>p. \<not> time_is_zero (om_DeletionTimestamp (pod_Meta p))) ps)"
  by (induction ps arbitrary: n rs ds) auto

text \<open>An identifier as the container runtimes write it: \<open>cri-o://<hash>\<close>.\<close>

definition id_ok :: "containerStatus \<Rightarrow> bool" where
  "id_ok cs \<longleftrightarrow> contains (cs_ContainerID cs) ''//''"

definition ref_of :: "containerStatus \<Rightarrow> containerRef" where
  "ref_of cs = \<lparr>cr_ID = split (cs_ContainerID cs) ''//'' ! 1, cr_Name = cs_Name cs\<rparr>"

definition statuses :: "pod list \<Rightarrow> containerStatus list" where
  "statuses ps = concat (map (\<lambda>p. pst_ContainerStatuses (pod_Status p)) ps)"

lemma length_split_ge_2: "sep \<noteq> [] \<Longrightarrow> 2 \<le> length (split s sep) \<longleftrightarrow> contains s sep"
proof -
  assume "sep \<noteq> []"
  then show ?thesis
    by (subst split.simps)
      (auto simp: contains_def Suc_le_eq numeral_2_eq_2 split: option.split)
qed

lemma status_loop_ok:
  "list_all id_ok css \<Longrightarrow> status_loop css acc = Inr (acc @ map ref_of css)"
proof (induction css arbitrary: acc)
  case (Cons cs css)
  then have "2 \<le> length (split (cs_ContainerID cs) ''//'')"
    by (simp add: length_split_ge_2 id_ok_def)
  with Cons show ?case by (simp add: ref_of_def)
qed simp

lemma status_loop_bad:
  assumes "list_all id_ok xs" and "\<not> id_ok cs"
  shows "status_loop (xs @ cs # ys) acc =
    Inl (ErrOther (''invalid container ID format: '' @ cs_ContainerID cs))"
  using assms
proof (induction xs arbitrary: acc)
  case Nil
  then have "\<not> 2 \<le> length (split (cs_ContainerID cs) ''//'')"
    by (simp add: length_split_ge_2 id_ok_def)
  then show ?case by simp
next
  case (Cons x xs)
  then have "2 \<le> length (split (cs_ContainerID x) ''//'')"
    by (simp add: length_split_ge_2 id_ok_def)
  with Cons show ?case by simp
qed

lemma status_loop_append:
  "status_loop (xs @ ys) acc =
     (case status_loop xs acc of Inl e \<Rightarrow> Inl e | Inr acc' \<Rightarrow> status_loop ys acc')"
  by (induction xs acc rule: status_loop.induct) (auto simp: Let_def)

lemma pods_loop_flat: "pods_loop ps acc = status_loop (statuses ps) acc"
  by (induction ps acc rule: pods_loop.induct)
    (auto simp: statuses_def status_loop_append split: sum.split)

section \<open>Waits\<close>

lemma run_deletion_loop:
  "run (deletion_loop n es ending) s =
     (if Deleted \<in> set es then Done None
      else case ending of
        Closes \<Rightarrow> Done (Some (ErrOther (''pod '' @ n @ '' not found or already deleted'')))
      | Silent \<Rightarrow> Stuck
      | Endless \<Rightarrow> OutOfFuel, s)"
  by (induction es) (auto split: watch_end.split)

lemma guar_deletion_loop [go_calls]: "guar R (deletion_loop n es ending)"
  by (induction es) (auto intro!: go_calls intro: guar_Ret guar_NoFuel split: watch_end.split)

section \<open>Effects\<close>

lemma calls_in_CheckPodExist [go_calls]:
  "P (PodsGet ns name) \<Longrightarrow> calls_in P (CheckPodExist E name ns)"
  unfolding CheckPodExist_def by (auto intro!: go_calls)

lemma calls_in_GetSourcePodTemplate [go_calls]:
  "P (PodsGet ns name) \<Longrightarrow> calls_in P (GetSourcePodTemplate E name ns)"
  unfolding GetSourcePodTemplate_def by (auto intro!: go_calls)

lemma calls_in_PrintContainerIDs [go_calls]:
  "P (PodsList ns) \<Longrightarrow> calls_in P (PrintContainerIDs E ns)"
  unfolding PrintContainerIDs_def by (auto intro!: go_calls split: sum.split)

lemma calls_in_WaitForContainerReady [go_calls]:
  assumes "P SelectWait" and "P (PodsGet ns podName)"
  shows "calls_in P (WaitForContainerReady E podName ns c)"
proof -
  have "calls_in P (container_ready_loop E podName ns c n)" for n
    using assms by (induction n) (auto simp: checkContainerReady_def intro!: go_calls)
  then show ?thesis by (simp add: WaitForContainerReady_def)
qed

lemma calls_in_WaitForPodDeletion [go_calls]:
  "P (PodsWatch ns (''metadata.name='' @ name)) \<Longrightarrow> calls_in P (WaitForPodDeletion E name ns)"
  unfolding WaitForPodDeletion_def by (auto intro!: go_calls)

lemma calls_in_GetDummyServiceIPAndPort [go_calls]:
  "P (ServicesGet ns ''dummy-service'') \<Longrightarrow> calls_in P (GetDummyServiceIPAndPort E ns)"
  unfolding GetDummyServiceIPAndPort_def by (auto intro!: go_calls)

lemma calls_in_WaitForServiceReady [go_calls]:
  assumes "P (ServicesGet ns name)" and "P (ServicesGet ns ''dummy-service'')"
    and "\<And>addr. P (Exec Output [''curl'', service_url addr ''/''])" and "P (Sleep 5)"
  shows "calls_in P (WaitForServiceReady E name ns)"
proof -
  have "calls_in P (service_ready_loop E name ns n)" for n
    using assms by (induction n) (auto intro!: go_calls)
  then show ?thesis by (simp add: WaitForServiceReady_def)
qed

section \<open>Properties\<close>

text \<open>\<open>GetActualRunningPod\<close> splits the pods, in order, into those being deleted
  and the others, and its count is the number of the others.\<close>

lemma GetActualRunningPod_partition:
  "GetActualRunningPod ps =
     (length (filter (\<lambda>p. time_is_zero (om_DeletionTimestamp (pod_Meta p))) ps),
      partition (\<lambda>p. time_is_zero (om_DeletionTimestamp (pod_Meta p))) ps)"
  by (simp add: GetActualRunningPod_def running_loop_filter o_def)

lemma run_PrintContainerIDs:
  assumes "podsList E (hist s) ns = (Some ps, err)"
  shows "run (PrintContainerIDs E ns) s =
    (Done (case err of
       Some e \<Rightarrow> ([], Some (ErrOther (''failed to list pods: '' @ err_text e)))
     | None \<Rightarrow>
         (case find (\<lambda>cs. \<not> id_ok cs) (statuses ps) of
            None \<Rightarrow> (map ref_of (statuses ps), None)
          | Some cs \<Rightarrow> ([], Some (ErrOther (''invalid container ID format: '' @ cs_ContainerID cs))))),
     s\<lparr>hist := hist s @ [PodsList ns]\<rparr>)"
proof (cases err)
  case None
  show ?thesis
  proof (cases "find (\<lambda>cs. \<not> id_ok cs) (statuses ps)")
    case none: None
    then have "list_all id_ok (statuses ps)" by (auto simp: find_None_iff list_all_iff)
    then have "pods_loop ps [] = Inr (map ref_of (statuses ps))"
      by (simp add: pods_loop_flat status_loop_ok)
    with assms None none show ?thesis by (simp add: PrintContainerIDs_def pods_List_def)
  next
    case (Some cs)
    then obtain i where i: "i < length (statuses ps)" "\<not> id_ok (statuses ps ! i)" "cs = statuses ps ! i"
      "\<forall>j<i. id_ok (statuses ps ! j)" by (auto simp: find_Some_iff)
    then have "statuses ps = take i (statuses ps) @ cs # drop (Suc i) (statuses ps)"
      by (simp add: id_take_nth_drop)
    moreover have "list_all id_ok (take i (statuses ps))"
      using i by (auto simp: list_all_length)
    ultimately have "pods_loop ps [] = Inl (ErrOther (''invalid container ID format: '' @ cs_ContainerID cs))"
      using status_loop_bad [of "take i (statuses ps)" cs] i by (metis pods_loop_flat)
    with assms None Some show ?thesis by (simp add: PrintContainerIDs_def pods_List_def)
  qed
qed (simp add: PrintContainerIDs_def pods_List_def assms)

text \<open>C27: \<open>PrintContainerIDs\<close> lists, pod by pod and in order, the name of every container
  and the part of its identifier between the first and the second \<open>//\<close>; if an identifier has
  no \<open>//\<close> it returns no container and an error naming the first such identifier; if the
  pods cannot be listed it returns the wrapped error. It makes one list request.\<close>

theorem PrintContainerIDs_result:
  assumes "podsList E (hist s) ns = (Some ps, err)"
  shows "run (PrintContainerIDs E ns) s =
    (Done (case err of
       Some e \<Rightarrow> ([], Some (ErrOther (''failed to list pods: '' @ err_text e)))
     | None \<Rightarrow>
         (case find (\<lambda>cs. \<not> id_ok cs) (statuses ps) of
            None \<Rightarrow> (map ref_of (statuses ps), None)
          | Some cs \<Rightarrow> ([], Some (ErrOther (''invalid container ID format: '' @ cs_ContainerID cs))))),
     s\<lparr>hist := hist s @ [PodsList ns]\<rparr>)"
  using assms by (rule run_PrintContainerIDs)

definition sample_pod :: pod where
  "sample_pod = pod0\<lparr>pod_Meta := meta0\<lparr>om_Name := ''web''\<rparr>,
     pod_Status := \<lparr>pst_Phase = ''Running'', pst_ContainerStatuses =
       [\<lparr>cs_Name = ''app-1'', cs_ContainerID = ''cri-o://ab12'', cs_Ready = True\<rparr>]\<rparr>\<rparr>"

theorem PrintContainerIDs_result_witness:
  "run (PrintContainerIDs (env0\<lparr>podsList := \<lambda>h ns. (Some [sample_pod], None)\<rparr>) ''test'') start =
     (Done ([\<lparr>cr_ID = ''ab12'', cr_Name = ''app-1''\<rparr>], None), start\<lparr>hist := [PodsList ''test'']\<rparr>)"
proof -
  let ?E = "env0\<lparr>podsList := \<lambda>h ns. (Some [sample_pod], None)\<rparr>"
  have "podsList ?E (hist start) ''test'' = (Some [sample_pod], None)" by simp
  from PrintContainerIDs_result [OF this] show ?thesis
    by (simp add: statuses_def sample_pod_def id_ok_def ref_of_def contains_def split.simps)
qed

text \<open>\<open>CheckPodExist\<close> never returns both a nil pod and a nil error: a pod that is not
  there is an error. (So the branch of \<open>Reconcile\<close> that waits and retries when the source pod
  is not found is never taken.)\<close>

lemma CheckPodExist_pod_or_error:
  "run (CheckPodExist E name ns) s = (Done (pod, err), s') \<Longrightarrow> pod = None \<longleftrightarrow> err \<noteq> None"
  by (cases "podsGet E (hist s) ns name"; cases "fst (podsGet E (hist s) ns name)")
    (auto simp: CheckPodExist_def pods_Get_def split: if_splits)

lemma CheckPodExist_pod_or_error_witness:
  "fst (run (CheckPodExist env0 ''web'' ''test'') start) = Done (None, Some (ErrNotFound ''not found'')) \<and>
   ((None :: pod option) = None) = (Some (ErrNotFound ''not found'') \<noteq> None)"
proof -
  have r: "run (CheckPodExist env0 ''web'' ''test'') start =
      (Done (None, Some (ErrNotFound ''not found'')), \<lparr>hist = [PodsGet ''test'' ''web'']\<rparr>)"
    by (simp add: CheckPodExist_def pods_Get_def env0_def)
  show ?thesis using CheckPodExist_pod_or_error [OF r] r by simp
qed

text \<open>C30: \<open>WaitForPodDeletion\<close> on every answer of the watch request: it panics when the
  request gives no watcher, returns nil when a deletion event arrives, reports an error when the
  channel closes without one, blocks when nothing arrives any more, and goes round for ever
  (runs out of every bound) when other events keep arriving.\<close>

theorem WaitForPodDeletion_outcome:
  "fst (run (WaitForPodDeletion E name ns) s) =
     (case fst (podsWatch E (hist s) ns (''metadata.name='' @ name)) of
        None \<Rightarrow> Panicked NilDereference
      | Some w \<Rightarrow>
          if Deleted \<in> set (w_events w) then Done None
          else case w_end w of
            Closes \<Rightarrow> Done (Some (ErrOther (''pod '' @ name @ '' not found or already deleted'')))
          | Silent \<Rightarrow> Stuck
          | Endless \<Rightarrow> OutOfFuel)"
  by (simp add: WaitForPodDeletion_def pods_Watch_def case_prod_beta run_deletion_loop split: option.split)

subsection \<open>The wait for a container\<close>

definition selects :: "history \<Rightarrow> nat" where
  "selects h = length (filter (\<lambda>c. c = SelectWait) h)"

lemma selects_append [simp]: "selects (h @ h') = selects h + selects h'"
  by (simp add: selects_def)

text \<open>A successful get request gives a pod.\<close>

definition gets_pods :: "env \<Rightarrow> bool" where
  "gets_pods E \<longleftrightarrow> (\<forall>h ns n. snd (podsGet E h ns n) = None \<longrightarrow> fst (podsGet E h ns n) \<noteq> None)"

definition ready_in :: "string \<Rightarrow> pod \<Rightarrow> bool" where
  "ready_in c p \<longleftrightarrow> (\<exists>cs \<in> set (pst_ContainerStatuses (pod_Status p)). cs_Name cs = c \<and> cs_Ready cs)"

lemma run_checkContainerReady:
  assumes "gets_pods E"
  obtains err where "run (checkContainerReady E podName ns c) s =
      (Done err, s\<lparr>hist := hist s @ [PodsGet ns podName]\<rparr>)"
    and "err = None \<longleftrightarrow> (\<exists>p. podsGet E (hist s) ns podName = (Some p, None) \<and> ready_in c p)"
proof (cases "snd (podsGet E (hist s) ns podName)")
  case (Some e)
  then show thesis
    by (intro that [of "Some e"]) (auto simp: checkContainerReady_def pods_Get_def case_prod_beta)
next
  case None
  then obtain p where p: "podsGet E (hist s) ns podName = (Some p, None)"
    using assms unfolding gets_pods_def by (metis option.exhaust prod.collapse)
  show thesis
  proof (rule that)
    show "run (checkContainerReady E podName ns c) s =
        (Done (if ready_in c p then None
           else Some (ErrOther (''container '' @ c @ '' in pod '' @ podName @ '' is not ready yet''))),
         s\<lparr>hist := hist s @ [PodsGet ns podName]\<rparr>)"
      using p by (auto simp: checkContainerReady_def pods_Get_def ready_in_def list_ex_iff)
  qed (use p in auto)
qed

lemma container_ready_loop_returns:
  assumes "gets_pods E" and "\<And>h. n \<le> selects h \<Longrightarrow> timeoutFires E h"
    and "n < selects (hist s) + bound" and "0 < bound"
  shows "\<exists>err s'. run (container_ready_loop E podName ns c bound) s = (Done err, s') \<and>
    (err = None \<longrightarrow> (\<exists>h p. podsGet E h ns podName = (Some p, None) \<and> ready_in c p))"
  using assms(3,4)
proof (induction bound arbitrary: s)
  case (Suc bound)
  let ?s = "s\<lparr>hist := hist s @ [SelectWait]\<rparr>"
  obtain err where err: "run (checkContainerReady E podName ns c) ?s =
      (Done err, ?s\<lparr>hist := hist ?s @ [PodsGet ns podName]\<rparr>)"
    and ok: "err = None \<longleftrightarrow> (\<exists>p. podsGet E (hist ?s) ns podName = (Some p, None) \<and> ready_in c p)"
    by (rule run_checkContainerReady [OF assms(1), of podName ns c ?s])
  show ?case
  proof (cases "timeoutFires E (hist s) \<or> err = None")
    case True
    then show ?thesis using err ok by auto
  next
    case False
    have "n < selects (hist s @ [SelectWait, PodsGet ns podName]) + bound"
      using Suc.prems by (simp add: selects_def)
    moreover have "0 < bound" using Suc.prems False assms(2) [of "hist s"] by (cases bound) auto
    ultimately show ?thesis
      using Suc.IH [of "s\<lparr>hist := hist s @ [SelectWait, PodsGet ns podName]\<rparr>"] False err by auto
  qed
qed simp

text \<open>C28: \<open>WaitForContainerReady\<close> returns: if the timer has fired by the time \<open>n\<close> selects
  were made, \<open>n + 1\<close> iterations are enough (the code's timer and ticker, 300 and 20 seconds,
  give \<open>n = 15\<close>), and when it returns nil the named container was ready in a pod that was read.\<close>

theorem WaitForContainerReady_returns:
  assumes "gets_pods E" and "\<And>h. n \<le> selects h \<Longrightarrow> timeoutFires E h"
    and "n < selects (hist s) + loopBound E" and "0 < loopBound E"
  shows "\<exists>err s'. run (WaitForContainerReady E podName ns c) s = (Done err, s') \<and>
    (err = None \<longrightarrow> (\<exists>h p. podsGet E h ns podName = (Some p, None) \<and> ready_in c p))"
  unfolding WaitForContainerReady_def using assms by (rule container_ready_loop_returns)

theorem WaitForContainerReady_returns_witness:
  "\<exists>err s'. run (WaitForContainerReady (env0\<lparr>timeoutFires := \<lambda>h. 15 \<le> selects h, loopBound := 16\<rparr>)
        ''dummy-pod'' ''test'' ''dummy-container'') start = (Done err, s')"
proof -
  let ?E = "env0\<lparr>timeoutFires := \<lambda>h. 15 \<le> selects h, loopBound := 16\<rparr>"
  have "gets_pods ?E" by (simp add: gets_pods_def env0_def)
  moreover have "timeoutFires ?E h" if "15 \<le> selects h" for h using that by simp
  moreover have "15 < selects (hist start) + loopBound ?E" by (simp add: selects_def)
  ultimately show ?thesis
    using WaitForContainerReady_returns [of ?E 15 start "''dummy-pod''" "''test''" "''dummy-container''"]
    by fastforce
qed

subsection \<open>The wait for the dummy service\<close>

definition sleeps :: "history \<Rightarrow> nat" where
  "sleeps h = length (filter (\<lambda>c. c = Sleep 5) h)"

lemma sleeps_append [simp]: "sleeps (h @ h') = sleeps h + sleeps h'"
  by (simp add: sleeps_def)

lemma sleeps_Cons [simp]: "sleeps (c # h) = (if c = Sleep 5 then Suc (sleeps h) else sleeps h)"
  by (simp add: sleeps_def)

lemma sleeps_Nil [simp]: "sleeps [] = 0"
  by (simp add: sleeps_def)

text \<open>
  The service is created and then its handler starts: before \<open>j\<close> waits of five seconds the service
  cannot be looked up, from then on it has an address; and the file handler answers a request for
  the root path from \<open>k\<close> waits on, and not before.
\<close>

definition service_up_after :: "env \<Rightarrow> string \<Rightarrow> string \<times> 32 word \<Rightarrow> nat \<Rightarrow> nat \<Rightarrow> bool" where
  "service_up_after E ns addr j k \<longleftrightarrow>
     (\<forall>h. sleeps h < j \<longrightarrow> snd (servicesGet E h ns ''dummy-service'') \<noteq> None) \<and>
     (\<forall>h. j \<le> sleeps h \<longrightarrow> snd (servicesGet E h ns ''dummy-service'') = None \<and>
        (\<exists>svc n t ps. fst (servicesGet E h ns ''dummy-service'') = Some svc \<and>
           svc_ClusterIP svc = fst addr \<and> svc_Ports svc = (n, snd addr, t) # ps)) \<and>
     (\<forall>h. contains (fst (execCmd E h Output [''curl'', service_url addr ''/''])) ''not found'' \<longleftrightarrow> k \<le> sleeps h)"

text \<open>One round, before and after the service can be looked up.\<close>

lemma service_ready_loop_down:
  assumes "snd (servicesGet E (hist s) ns ''dummy-service'') \<noteq> None"
  shows "run (service_ready_loop E ''dummy-service'' ns (Suc n)) s =
    run (service_ready_loop E ''dummy-service'' ns n)
      (s\<lparr>hist := hist s @ [ServicesGet ns ''dummy-service'', Sleep 5]\<rparr>)"
  using assms by (auto simp: services_Get_def sleep_def case_prod_beta)

abbreviation probe_calls :: "string \<Rightarrow> string \<times> 32 word \<Rightarrow> call list" where
  "probe_calls ns addr \<equiv> [ServicesGet ns ''dummy-service'', ServicesGet ns ''dummy-service'',
     Exec Output [''curl'', service_url addr ''/'']]"

lemma service_ready_loop_up:
  assumes "service_up_after E ns addr j k" and "j \<le> sleeps (hist s)"
  shows "run (service_ready_loop E ''dummy-service'' ns (Suc n)) s =
    (if k \<le> sleeps (hist s) then (Done (), s\<lparr>hist := hist s @ probe_calls ns addr\<rparr>)
     else run (service_ready_loop E ''dummy-service'' ns n) (s\<lparr>hist := hist s @ probe_calls ns addr @ [Sleep 5]\<rparr>))"
proof -
  let ?h = "hist s @ [ServicesGet ns ''dummy-service'']"
  have le: "j \<le> sleeps ?h" using assms(2) by simp
  obtain svc m t ps where svc: "fst (servicesGet E ?h ns ''dummy-service'') = Some svc"
    "svc_ClusterIP svc = fst addr" "svc_Ports svc = (m, snd addr, t) # ps"
    using assms(1) le unfolding service_up_after_def by blast
  then show ?thesis
    using assms le unfolding service_up_after_def
    by (simp add: services_Get_def GetDummyServiceIPAndPort_def exec_cmd_def sleep_def case_prod_beta run_index)
qed

lemma service_ready_loop_returns:
  assumes "service_up_after E ns addr j k" and "max j k \<le> sleeps (hist s) + n"
  shows "\<exists>s'. run (service_ready_loop E ''dummy-service'' ns (Suc n)) s = (Done (), s') \<and>
    sleeps (hist s') = max (sleeps (hist s)) (max j k)"
  using assms(2)
proof (induction n arbitrary: s)
  case 0
  then show ?case using service_ready_loop_up [OF assms(1), of s 0] by simp
next
  case (Suc n)
  show ?case
  proof (cases "j \<le> sleeps (hist s)")
    case True
    then show ?thesis
      using service_ready_loop_up [OF assms(1) True, of "Suc n"] Suc.prems
        Suc.IH [of "s\<lparr>hist := hist s @ probe_calls ns addr @ [Sleep 5]\<rparr>"]
      by (cases "k \<le> sleeps (hist s)") (auto simp del: service_ready_loop.simps)
  next
    case False
    then have "snd (servicesGet E (hist s) ns ''dummy-service'') \<noteq> None"
      using assms(1) unfolding service_up_after_def by simp
    from service_ready_loop_down [OF this, of "Suc n"] show ?thesis
      using Suc.IH [of "s\<lparr>hist := hist s @ [ServicesGet ns ''dummy-service'', Sleep 5]\<rparr>"] Suc.prems False
      by (auto simp del: service_ready_loop.simps)
  qed
qed

text \<open>C29: \<open>WaitForServiceReady\<close> returns once the service can be looked up and the file handler behind it
  answers: if the first is so after \<open>j\<close> and the second after \<open>k\<close> waits of five seconds, it has
  waited exactly as often as the later of the two needs when it returns, and one iteration more than
  that is enough.\<close>

theorem WaitForServiceReady_returns:
  assumes "service_up_after E ns addr j k" and "max j k < sleeps (hist s) + loopBound E" and "0 < loopBound E"
  shows "\<exists>s'. run (WaitForServiceReady E ''dummy-service'' ns) s = (Done (), s') \<and>
    sleeps (hist s') = max (sleeps (hist s)) (max j k)"
proof -
  obtain n where "loopBound E = Suc n" using assms(3) by (cases "loopBound E") auto
  then show ?thesis
    using service_ready_loop_returns [OF assms(1), of s n] assms(2) by (simp add: WaitForServiceReady_def)
qed

definition sample_service_env :: env where
  "sample_service_env = env0\<lparr>
     servicesGet := \<lambda>h ns n. if sleeps h < 1 then (None, Some (ErrNotFound ''no''))
       else (Some \<lparr>svc_Meta = meta0, svc_ClusterIP = ''10.0.0.7'', svc_Ports = [(''http'', 80, 8080)],
                   svc_Selector = None\<rparr>, None),
     execCmd := \<lambda>h m args. (if sleeps h < 2 then [] else ''not found'', None), loopBound := 3\<rparr>"

theorem WaitForServiceReady_returns_witness:
  "\<exists>s'. run (WaitForServiceReady sample_service_env ''dummy-service'' ''test'') start = (Done (), s') \<and>
     sleeps (hist s') = 2"
proof -
  have "service_up_after sample_service_env ''test'' (''10.0.0.7'', 80) 1 2"
    by (auto simp: service_up_after_def sample_service_env_def contains_def)
  moreover have "max 1 2 < sleeps (hist start) + loopBound sample_service_env" "0 < loopBound sample_service_env"
    by (simp_all add: sample_service_env_def)
  ultimately have "\<exists>s'. run (WaitForServiceReady sample_service_env ''dummy-service'' ''test'') start = (Done (), s') \<and>
     sleeps (hist s') = max (sleeps (hist start)) (max 1 2)" by (rule WaitForServiceReady_returns)
  then show ?thesis by (simp add: numeral_2_eq_2)
qed

end
