(* ===== verification/Checkpoint.thy ===== *)
theory Checkpoint
  imports Utils
begin

text \<open>
  \<open>controllers/checkpoint.go\<close> and \<open>controllers/crio.go\<close>: the checkpoint requests to the
  kubelet, one container after the other or one goroutine per container, and the removal of
  the checkpointed pod.
\<close>

section \<open>Definitions\<close>

definition TerminateCheckpointedPod :: "env \<Rightarrow> string \<Rightarrow> string \<Rightarrow> (call, 'm, goerr option) go" where
  "TerminateCheckpointedPod E podName ns =
     bind_go (pods_Get E ns podName) (\<lambda>(pod, err).
     bind_go (if err \<noteq> None then bind_go (deref pod) (\<lambda>_. Ret ()) else Ret ()) (\<lambda>_.
     bind_go (pods_Delete E ns podName) (\<lambda>err.
     bind_go (if err \<noteq> None then bind_go (deref pod) (\<lambda>_. Ret ()) else Ret ()) (\<lambda>_.
     bind_go (WaitForPodDeletion E podName ns) (\<lambda>err.
     bind_go (if err \<noteq> None then bind_go (deref pod) (\<lambda>_. Ret ()) else Ret ()) (\<lambda>_.
       Ret None))))))"

definition checkpoint_url :: "string \<Rightarrow> string \<Rightarrow> string \<Rightarrow> string" where
  "checkpoint_url ns podName containerName =
     ''https://localhost:10250/checkpoint/'' @ ns @ ''/'' @ podName @ ''/'' @ containerName"

definition checkpoint_call :: "string \<Rightarrow> string \<Rightarrow> string \<Rightarrow> call" where
  "checkpoint_call ns podName containerName =
     Exec CombinedOutput [''curl'', ''-sk'', ''-XPOST'', checkpoint_url ns podName containerName]"

text \<open>The body of the goroutine that \<open>CheckpointPodPipelined\<close> starts for each container.\<close>

definition checkpoint_worker :: "env \<Rightarrow> string \<Rightarrow> string \<Rightarrow> string \<Rightarrow> (call, 'm, unit) go" where
  "checkpoint_worker E ns podName containerName =
     bind_go (exec_cmd E CombinedOutput
                [''curl'', ''-sk'', ''-XPOST'', checkpoint_url ns podName containerName]) (\<lambda>_. Ret ())"

definition CheckpointPodPipelined :: "env \<Rightarrow> containerRef list \<Rightarrow> string \<Rightarrow> string \<Rightarrow> (call, 'm, goerr option) go" where
  "CheckpointPodPipelined E containers ns podName =
     bind_go (wait_group E (map (\<lambda>c. checkpoint_worker E ns podName (cr_Name c)) containers)) (\<lambda>_. Ret None)"

definition CheckpointPodCrio :: "env \<Rightarrow> containerRef list \<Rightarrow> string \<Rightarrow> string \<Rightarrow> (call, 'm, goerr option) go" where
  "CheckpointPodCrio E containers ns podName =
     bind_go (for_each (\<lambda>container.
                bind_go (exec_cmd E CombinedOutput
                           [''curl'', ''-sk'', ''-XPOST'', checkpoint_url ns podName (cr_Name container)])
                  (\<lambda>_. Ret ())) containers) (\<lambda>_. Ret None)"

section \<open>Requests\<close>

abbreviation requests :: "string \<Rightarrow> string \<Rightarrow> containerRef list \<Rightarrow> call list" where
  "requests ns podName containers \<equiv> map (\<lambda>c. checkpoint_call ns podName (cr_Name c)) containers"

lemma run_for_each_calls:
  assumes "\<And>x s. x \<in> set xs \<Longrightarrow> run (f x) s = (Done (), s\<lparr>hist := hist s @ g x\<rparr>)"
  shows "run (for_each f xs) s = (Done (), s\<lparr>hist := hist s @ concat (map g xs)\<rparr>)"
  using assms by (induction xs arbitrary: s) auto

lemma run_CheckpointPodCrio [go_run]:
  "run (CheckpointPodCrio E containers ns podName) s =
     (Done None, s\<lparr>hist := hist s @ requests ns podName containers\<rparr>)"
proof -
  have "run (for_each (\<lambda>container.
                bind_go (exec_cmd E CombinedOutput
                           [''curl'', ''-sk'', ''-XPOST'', checkpoint_url ns podName (cr_Name container)])
                  (\<lambda>_. Ret ())) containers) s =
      (Done (), s\<lparr>hist := hist s @ concat (map (\<lambda>c. [checkpoint_call ns podName (cr_Name c)]) containers)\<rparr>)"
    by (rule run_for_each_calls) (simp add: exec_cmd_def checkpoint_call_def)
  then show ?thesis by (simp add: CheckpointPodCrio_def)
qed

lemma emits_checkpoint_worker [simp]:
  "emits (checkpoint_worker E ns podName c) x cs \<longleftrightarrow> cs = [checkpoint_call ns podName c]"
  by (simp add: checkpoint_worker_def checkpoint_call_def)

lemma calls_in_checkpoint_worker [go_calls]:
  "P (checkpoint_call ns podName c) \<Longrightarrow> calls_in P (checkpoint_worker E ns podName c)"
  unfolding checkpoint_worker_def checkpoint_call_def by (auto intro!: go_calls)

lemma returns_checkpoint_worker [go_returns]: "returns (checkpoint_worker E ns podName c)"
  unfolding checkpoint_worker_def by (intro go_returns)

lemma run_CheckpointPodPipelined:
  fixes s :: "(call, 'm) world_scheme"
  obtains s' cs where "run (CheckpointPodPipelined E containers ns podName) s = (Done None, s')"
    and "hist s' = hist s @ cs" and "mset cs = mset (requests ns podName containers)"
proof -
  let ?ts = "map (\<lambda>c. checkpoint_worker E ns podName (cr_Name c)) containers :: (call, 'm, unit) go list"
  have r: "returns t" and c: "calls_in (\<lambda>_. True) t" if "t \<in> set ?ts" for t
    using that by (auto intro: go_returns go_calls)
  obtain s' css cs where run: "run (wait_group E ?ts) s = (Done (), s')"
    and emits: "list_all2 (\<lambda>t. emits t ()) ?ts css" and h: "hist s' = hist s @ cs"
    and cs: "mset cs = sum_list (map mset css)"
    by (rule wait_group_emits [OF r c, where E = E and s = s])
  have "css = map (\<lambda>c. [checkpoint_call ns podName (cr_Name c)]) containers"
    using emits by (simp add: list_all2_map1 flip: list_all2_map_eq)
  then have "mset cs = mset (requests ns podName containers)"
    using cs sum_list_mset_singletons by metis
  with run h show thesis using that by (simp add: CheckpointPodPipelined_def)
qed

section \<open>Effects\<close>

lemma calls_in_CheckpointPodPipelined [go_calls]:
  "(\<And>c. c \<in> set containers \<Longrightarrow> P (checkpoint_call ns podName (cr_Name c))) \<Longrightarrow>
     calls_in P (CheckpointPodPipelined E containers ns podName)"
  unfolding CheckpointPodPipelined_def by (auto intro!: go_calls)

lemma calls_in_CheckpointPodCrio [go_calls]:
  "(\<And>c. c \<in> set containers \<Longrightarrow> P (checkpoint_call ns podName (cr_Name c))) \<Longrightarrow>
     calls_in P (CheckpointPodCrio E containers ns podName)"
  unfolding CheckpointPodCrio_def checkpoint_call_def by (auto intro!: go_calls)

lemma calls_in_TerminateCheckpointedPod [go_calls]:
  assumes "P (PodsGet ns podName)" and "P (PodsDelete ns podName)"
    and "P (PodsWatch ns (''metadata.name='' @ podName))"
  shows "calls_in P (TerminateCheckpointedPod E podName ns)"
  unfolding TerminateCheckpointedPod_def using assms by (auto intro!: go_calls)

lemma returns_CheckpointPodPipelined [go_returns]:
  "returns (CheckpointPodPipelined E containers ns podName)"
  unfolding CheckpointPodPipelined_def by (auto intro!: go_returns)

lemma returns_CheckpointPodCrio [go_returns]: "returns (CheckpointPodCrio E containers ns podName)"
  unfolding CheckpointPodCrio_def by (auto intro!: go_returns)

section \<open>The contract of a checkpointer\<close>

text \<open>
  What the migration relies on, whichever way the containers are checkpointed: the routine
  returns nil and posts exactly one request per container, in some order.
\<close>

locale checkpointer =
  fixes checkpoint :: "env \<Rightarrow> containerRef list \<Rightarrow> string \<Rightarrow> string \<Rightarrow> (call, 'm, goerr option) go"
  assumes checkpoint_once: "\<exists>s' cs. run (checkpoint E containers ns podName) s = (Done None, s') \<and>
    hist s' = hist s @ cs \<and> mset cs = mset (requests ns podName containers)"
begin

lemma checkpoint_nil: "fst (run (checkpoint E containers ns podName) s) = Done None"
  using checkpoint_once [of E containers ns podName s] by auto

lemma checkpoint_log:
  "mset (hist (snd (run (checkpoint E containers ns podName) s))) =
     mset (hist s) + mset (requests ns podName containers)"
  using checkpoint_once [of E containers ns podName s] by auto

lemma checkpoint_every:
  assumes "c \<in> set containers"
  shows "checkpoint_call ns podName (cr_Name c) \<in> set (hist (snd (run (checkpoint E containers ns podName) s)))"
proof -
  have "set (hist (snd (run (checkpoint E containers ns podName) s))) =
      set (hist s) \<union> set (requests ns podName containers)"
    using arg_cong [OF checkpoint_log, of set_mset] by simp
  with assms show ?thesis by auto
qed

end

interpretation crio: checkpointer CheckpointPodCrio
  by unfold_locales (auto simp: run_CheckpointPodCrio)

interpretation pipelined: checkpointer CheckpointPodPipelined
proof
  fix E containers ns podName and s :: "(call, 'm) world_scheme"
  show "\<exists>s' cs. run (CheckpointPodPipelined E containers ns podName) s = (Done None, s') \<and>
      hist s' = hist s @ cs \<and> mset cs = mset (requests ns podName containers)"
    by (rule run_CheckpointPodPipelined [of E containers ns podName s]) blast
qed

section \<open>Deletion of the checkpointed pod\<close>

definition deletion_calls :: "string \<Rightarrow> string \<Rightarrow> call list" where
  "deletion_calls podName ns =
     [PodsGet ns podName, PodsDelete ns podName, PodsWatch ns (''metadata.name='' @ podName)]"

lemma run_TerminateCheckpointedPod:
  assumes "podsGet E (hist s) ns podName = (Some p, gerr)"
  shows "run (TerminateCheckpointedPod E podName ns) s =
    (case fst (podsWatch E (hist s @ [PodsGet ns podName, PodsDelete ns podName]) ns (''metadata.name='' @ podName)) of
       None \<Rightarrow> Panicked NilDereference
     | Some w \<Rightarrow> if Deleted \<in> set (w_events w) \<or> w_end w = Closes then Done None
         else if w_end w = Silent then Stuck else OutOfFuel,
     s\<lparr>hist := hist s @ deletion_calls podName ns\<rparr>)"
  using assms
  by (auto simp: TerminateCheckpointedPod_def WaitForPodDeletion_def pods_Get_def pods_Delete_def
      pods_Watch_def deletion_calls_def case_prod_beta run_deletion_loop split: option.split watch_end.split)

section \<open>Properties\<close>

text \<open>C8: checkpointing with a goroutine per container is equivalent to checkpointing one container
  after the other: under every schedule and whatever the kubelet answers, both return nil and
  both make the same requests, one per container, in a possibly different order.\<close>

theorem CheckpointPodPipelined_equiv_Crio:
  "fst (run (CheckpointPodPipelined E containers ns podName) s) = Done None \<and>
   fst (run (CheckpointPodCrio E' containers ns podName) s) = Done None \<and>
   mset (hist (snd (run (CheckpointPodPipelined E containers ns podName) s))) =
   mset (hist (snd (run (CheckpointPodCrio E' containers ns podName) s)))"
  by (simp add: crio.checkpoint_nil pipelined.checkpoint_nil crio.checkpoint_log pipelined.checkpoint_log)

text \<open>C31: \<open>TerminateCheckpointedPod\<close> always asks for the deletion, whether or not the pod was
  found, and starts to watch only afterwards. It returns nil when the watch reports the
  deletion and also when the watch ends without it; it blocks when the watch stays open and
  nothing more arrives, goes round for ever when other events keep arriving, and panics when no
  watch could be started.\<close>

theorem TerminateCheckpointedPod_outcome:
  assumes "podsGet E (hist s) ns podName = (Some p, gerr)"
  shows "run (TerminateCheckpointedPod E podName ns) s =
    (case fst (podsWatch E (hist s @ [PodsGet ns podName, PodsDelete ns podName]) ns (''metadata.name='' @ podName)) of
       None \<Rightarrow> Panicked NilDereference
     | Some w \<Rightarrow> if Deleted \<in> set (w_events w) \<or> w_end w = Closes then Done None
         else if w_end w = Silent then Stuck else OutOfFuel,
     s\<lparr>hist := hist s @ deletion_calls podName ns\<rparr>)"
  using assms by (rule run_TerminateCheckpointedPod)

theorem TerminateCheckpointedPod_outcome_witness:
  "run (TerminateCheckpointedPod (env0\<lparr>podsWatch := \<lambda>h ns sel. (Some \<lparr>w_events = [], w_end = Silent\<rparr>, None)\<rparr>)
      ''web'' ''test'') start = (Stuck, \<lparr>hist = deletion_calls ''web'' ''test''\<rparr>)"
  by (subst TerminateCheckpointedPod_outcome [where p = pod0 and gerr = "Some (ErrNotFound ''not found'')"])
    (simp_all add: env0_def)

end
