(* ===== verification/Migrate.thy ===== *)
theory Migrate
  imports Checkpoint
begin

text \<open>
  \<open>controllers/migrate.go\<close>, the sequential part: uploading checkpoint archives to the dummy
  service one by one or with a goroutine per file, the end-of-transfer marker (the file
  \<open>dummy\<close>), and \<open>MigratePod\<close>. The pipelined migration is in theory \<open>Pipeline\<close>.
\<close>

section \<open>Definitions\<close>

definition checkpoints_dir :: string where
  "checkpoints_dir = ''/tmp/checkpoints/checkpoints''"

definition dummy_file :: string where
  "dummy_file = ''/tmp/checkpoints/checkpoints/dummy''"

definition upload_args :: "string \<Rightarrow> string \<times> 32 word \<Rightarrow> string list" where
  "upload_args path addr = [''curl'', ''-X'', ''POST'', ''-F'', ''file=@'' @ path, service_url addr ''/upload'']"

definition upload_call :: "string \<times> 32 word \<Rightarrow> string \<Rightarrow> call" where
  "upload_call addr path = Exec CombinedOutput (upload_args path addr)"

definition MigrateCheckpoint :: "env \<Rightarrow> string \<Rightarrow> string \<Rightarrow> (call, 'm, goerr option) go" where
  "MigrateCheckpoint E directory ns =
     bind_go (read_dir E directory) (\<lambda>(files, err).
       if err \<noteq> None then Ret err
       else
         bind_go (WaitForServiceReady E ''dummy-service'' ns) (\<lambda>_.
         bind_go (GetDummyServiceIPAndPort E ns) (\<lambda>addr.
         bind_go (for_each (\<lambda>file.
                    let checkpointPath = path_join directory (entry_name file) in
                    bind_go (exec_cmd E Output [''sudo'', ''chmod'', ''+rwx'', checkpointPath]) (\<lambda>_.
                    bind_go (exec_cmd E CombinedOutput (upload_args checkpointPath addr)) (\<lambda>_.
                      Ret ()))) files) (\<lambda>_.
           Ret None))))"

definition MigrateDummyFile :: "env \<Rightarrow> string \<Rightarrow> string \<Rightarrow> (call, 'm, goerr option) go" where
  "MigrateDummyFile E directory ns =
     bind_go (read_dir E directory) (\<lambda>(files, err).
       if err \<noteq> None then Ret err
       else
         bind_go (WaitForServiceReady E ''dummy-service'' ns) (\<lambda>_.
         bind_go (GetDummyServiceIPAndPort E ns) (\<lambda>addr.
         bind_go (for_each (\<lambda>file.
                    if entry_name file = ''dummy'' then
                      (let dummyPath = path_join directory (entry_name file) in
                       bind_go (exec_cmd E Output [''sudo'', ''chmod'', ''+rwx'', dummyPath]) (\<lambda>_.
                       bind_go (exec_cmd E CombinedOutput (upload_args dummyPath addr)) (\<lambda>_.
                         Ret ())))
                    else Ret ()) files) (\<lambda>_.
           Ret None))))"

text \<open>The goroutine that \<open>MigrateCheckpointParallelized\<close> starts for a directory entry.\<close>

definition upload_worker :: "env \<Rightarrow> string \<Rightarrow> string \<times> 32 word \<Rightarrow> dir_entry \<Rightarrow> (call, 'm, unit) go" where
  "upload_worker E dir addr entry =
     bind_go (entry_info E entry) (\<lambda>r.
       case r of
         Inl err \<Rightarrow> Ret ()
       | Inr fileName \<Rightarrow>
           bind_go (exec_cmd E CombinedOutput (upload_args (path_join dir fileName) addr)) (\<lambda>_. Ret ()))"

definition MigrateCheckpointParallelized :: "env \<Rightarrow> dir_entry list \<Rightarrow> string \<Rightarrow> string \<Rightarrow> (call, 'm, goerr option) go" where
  "MigrateCheckpointParallelized E files dir ns =
     bind_go (GetDummyServiceIPAndPort E ns) (\<lambda>addr.
     bind_go (wait_group E (map (upload_worker E dir addr) files)) (\<lambda>_.
     bind_go (exec_cmd E Output [''sudo'', ''touch'', dummy_file]) (\<lambda>_.
     bind_go (exec_cmd E CombinedOutput (upload_args dummy_file addr)) (\<lambda>_.
       Ret None))))"

definition MigratePod :: "env \<Rightarrow> liveMigration \<Rightarrow> string \<Rightarrow> (call, 'm, goerr option) go" where
  "MigratePod E migratingPod ns =
     (let name = om_Name (lm_Meta migratingPod) in
      bind_go (PrintContainerIDs E ns) (\<lambda>(containers, _).
      bind_go (file_op E (RemoveAll checkpoints_dir)) (\<lambda>_.
      bind_go (file_op E (MkdirAll checkpoints_dir)) (\<lambda>err.
        if err \<noteq> None then Ret err
        else
          bind_go (CheckpointPodCrio E containers ns name) (\<lambda>_.
          bind_go (file_op E (Chown checkpoints_dir)) (\<lambda>_.
          bind_go (TerminateCheckpointedPod E name ns) (\<lambda>_.
          bind_go (read_dir E checkpoints_dir) (\<lambda>(files, _).
          bind_go (MigrateCheckpointParallelized E files checkpoints_dir ns) (\<lambda>_.
            Ret None)))))))))"

section \<open>The address of the dummy service\<close>

text \<open>The service is there with a port whenever it is looked up.\<close>

definition service_at :: "env \<Rightarrow> string \<Rightarrow> string \<times> 32 word \<Rightarrow> bool" where
  "service_at E ns addr \<longleftrightarrow>
     (\<forall>h. \<exists>svc n t ps. fst (servicesGet E h ns ''dummy-service'') = Some svc \<and>
       svc_ClusterIP svc = fst addr \<and> svc_Ports svc = (n, snd addr, t) # ps)"

lemma run_GetDummyServiceIPAndPort:
  assumes "service_at E ns addr"
  shows "run (GetDummyServiceIPAndPort E ns) s =
    (Done addr, s\<lparr>hist := hist s @ [ServicesGet ns ''dummy-service'']\<rparr>)"
proof -
  obtain svc n t ps err where "servicesGet E (hist s) ns ''dummy-service'' = (Some svc, err)"
    "svc_ClusterIP svc = fst addr" "svc_Ports svc = (n, snd addr, t) # ps"
    using assms unfolding service_at_def by (metis prod.collapse)
  then show ?thesis
    by (simp add: GetDummyServiceIPAndPort_def services_Get_def run_index)
qed

section \<open>The goroutines of the parallel upload\<close>

lemma emits_upload_worker:
  "emits (upload_worker E dir addr entry) () cs \<longleftrightarrow>
     (\<exists>h. case entryInfo E h (entry_name entry) of
            Inl err \<Rightarrow> cs = [EntryInfo (entry_name entry)]
          | Inr f \<Rightarrow> cs = [EntryInfo (entry_name entry), upload_call addr (path_join dir f)])"
proof -
  let ?k = "\<lambda>r. case r of Inl err \<Rightarrow> Ret ()
      | Inr f \<Rightarrow> bind_go (exec_cmd E CombinedOutput (upload_args (path_join dir f) addr)) (\<lambda>_. Ret ())"
  have "emits (?k r) () bs \<longleftrightarrow>
      (case r of Inl err \<Rightarrow> bs = [] | Inr f \<Rightarrow> bs = [upload_call addr (path_join dir f)])" for r bs
    by (cases r) (simp_all add: emits_simps upload_call_def)
  then have "emits (upload_worker E dir addr entry) () cs \<longleftrightarrow>
      (\<exists>h bs. cs = EntryInfo (entry_name entry) # bs \<and>
        (case entryInfo E h (entry_name entry) of
           Inl err \<Rightarrow> bs = [] | Inr f \<Rightarrow> bs = [upload_call addr (path_join dir f)]))"
    unfolding upload_worker_def entry_info_def emits_bind [of "perform _ _"] by auto
  also have "\<dots> \<longleftrightarrow> (\<exists>h. case entryInfo E h (entry_name entry) of
            Inl err \<Rightarrow> cs = [EntryInfo (entry_name entry)]
          | Inr f \<Rightarrow> cs = [EntryInfo (entry_name entry), upload_call addr (path_join dir f)])"
    by (rule arg_cong [where f = Ex], rule ext) (auto split: sum.splits)
  finally show ?thesis .
qed

lemma returns_upload_worker [go_returns]: "returns (upload_worker E dir addr entry)"
  unfolding upload_worker_def by (auto intro!: go_returns)

lemma calls_in_upload_worker [go_calls]:
  assumes "P (EntryInfo (entry_name entry))" and "\<And>p. P (upload_call addr p)"
  shows "calls_in P (upload_worker E dir addr entry)"
  using assms unfolding upload_worker_def upload_call_def by (auto intro!: go_calls)

text \<open>What a file contributes when the file information of an entry carries the entry's name.\<close>

definition info_ok :: "env \<Rightarrow> bool" where
  "info_ok E \<longleftrightarrow> (\<forall>h n. entryInfo E h n = Inr n)"

abbreviation file_calls :: "string \<Rightarrow> string \<times> 32 word \<Rightarrow> dir_entry \<Rightarrow> call list" where
  "file_calls dir addr f \<equiv> [EntryInfo (entry_name f), upload_call addr (path_join dir (entry_name f))]"

lemma run_MigrateCheckpointParallelized:
  fixes s :: "(call, 'm) world_scheme"
  assumes "service_at E ns addr"
  obtains s' css cs where
    "run (MigrateCheckpointParallelized E files dir ns) s = (Done None, s')"
    and "list_all2 (\<lambda>f. emits (upload_worker E dir addr f :: (call, 'm, unit) go) ()) files css"
    and "hist s' = hist s @ [ServicesGet ns ''dummy-service''] @ cs @
           [Exec Output [''sudo'', ''touch'', dummy_file], upload_call addr dummy_file]"
    and "mset cs = sum_list (map mset css)"
proof -
  let ?ts = "map (upload_worker E dir addr) files :: (call, 'm, unit) go list"
  let ?s1 = "s\<lparr>hist := hist s @ [ServicesGet ns ''dummy-service'']\<rparr>"
  have r: "returns t" and c: "calls_in (\<lambda>_. True) t" if "t \<in> set ?ts" for t
    using that by (auto intro!: go_returns go_calls)
  obtain s2 css cs where w: "run (wait_group E ?ts) ?s1 = (Done (), s2)"
    and e: "list_all2 (\<lambda>t. emits t ()) ?ts css" and h: "hist s2 = hist ?s1 @ cs"
    and m: "mset cs = sum_list (map mset css)"
    by (rule wait_group_emits [OF r c, where E = E and s = ?s1])
  show thesis
  proof (rule that)
    show "run (MigrateCheckpointParallelized E files dir ns) s = (Done None,
        s2\<lparr>hist := hist s2 @ [Exec Output [''sudo'', ''touch'', dummy_file], upload_call addr dummy_file]\<rparr>)"
      using w
      by (simp add: run_GetDummyServiceIPAndPort [OF assms] MigrateCheckpointParallelized_def exec_cmd_def upload_call_def case_prod_beta)
  qed (use e h m in \<open>simp_all add: list_all2_map1\<close>)
qed

lemma uploads_info_ok:
  assumes "info_ok E" and "list_all2 (\<lambda>f. emits (upload_worker E dir addr f) ()) files css"
  shows "css = map (file_calls dir addr) files"
  using assms(2)
proof (induction rule: list_all2_induct)
  case (Cons f fs cs css)
  have "cs = file_calls dir addr f"
    using Cons.hyps(1) assms(1) by (simp add: emits_upload_worker info_ok_def)
  with Cons.IH show ?case by simp
qed simp

lemma calls_in_MigrateCheckpointParallelized [go_calls]:
  assumes "P (ServicesGet ns ''dummy-service'')" and "\<And>f. f \<in> set files \<Longrightarrow> P (EntryInfo (entry_name f))"
    and "\<And>addr p. P (upload_call addr p)" and "P (Exec Output [''sudo'', ''touch'', dummy_file])"
  shows "calls_in P (MigrateCheckpointParallelized E files dir ns)"
  using assms unfolding MigrateCheckpointParallelized_def upload_call_def
  by (auto intro!: go_calls simp: upload_call_def)

section \<open>The whole sequential migration\<close>

text \<open>
  What the migration of the pod \<open>name\<close> needs of the outside in order to return: a get request
  gives a pod object even when it fails, and a watch delivers the deletion or ends.
\<close>

definition deletion_seen :: "env \<Rightarrow> string \<Rightarrow> string \<Rightarrow> bool" where
  "deletion_seen E ns name \<longleftrightarrow>
     (\<forall>h. fst (podsGet E h ns name) \<noteq> None \<and>
        (\<exists>w. fst (podsWatch E h ns (''metadata.name='' @ name)) = Some w \<and>
           (Deleted \<in> set (w_events w) \<or> w_end w = Closes)))"

lemma run_Terminate_seen:
  assumes "deletion_seen E ns name"
  shows "run (TerminateCheckpointedPod E name ns) s = (Done None, s\<lparr>hist := hist s @ deletion_calls name ns\<rparr>)"
proof -
  obtain p gerr where g: "podsGet E (hist s) ns name = (Some p, gerr)"
    using assms unfolding deletion_seen_def by (metis option.exhaust prod.collapse)
  obtain w where w: "fst (podsWatch E (hist s @ [PodsGet ns name, PodsDelete ns name]) ns (''metadata.name='' @ name)) = Some w"
    "Deleted \<in> set (w_events w) \<or> w_end w = Closes"
    using assms unfolding deletion_seen_def by blast
  show ?thesis
    unfolding run_TerminateCheckpointedPod [where E = E and s = s and ns = ns and podName = name, OF g] w(1)
    using w(2) by simp
qed

text \<open>The containers that \<open>PrintContainerIDs\<close> reports for the pods of the namespace.\<close>

definition listed :: "pod list \<Rightarrow> goerr option \<Rightarrow> containerRef list" where
  "listed ps err = (if err = None \<and> list_all id_ok (statuses ps) then map ref_of (statuses ps) else [])"

lemma run_PrintContainerIDs_listed:
  assumes "podsList E (hist s) ns = (Some ps, err)"
  shows "\<exists>err'. run (PrintContainerIDs E ns) s = (Done (listed ps err, err'), s\<lparr>hist := hist s @ [PodsList ns]\<rparr>)"
  unfolding run_PrintContainerIDs [OF assms]
  by (auto simp: listed_def find_None_iff list_all_iff split: option.split)
    (auto simp: find_Some_iff)

abbreviation prepare_calls :: "string \<Rightarrow> string \<Rightarrow> containerRef list \<Rightarrow> call list" where
  "prepare_calls ns name containers \<equiv>
     [PodsList ns, RemoveAll checkpoints_dir, MkdirAll checkpoints_dir] @ requests ns name containers @
     [Chown checkpoints_dir]"

lemma run_MigratePod:
  fixes s :: "(call, 'm) world_scheme"
  assumes name: "name = om_Name (lm_Meta lm)" and pl: "podsList E (hist s) ns = (Some ps, err)"
    and mk: "\<And>h. fileOp E h (MkdirAll checkpoints_dir) = None"
    and del: "deletion_seen E ns name" and svc: "service_at E ns addr" and info: "info_ok E"
    and h: "h = hist s @ prepare_calls ns name (listed ps err) @ deletion_calls name ns"
  shows "\<exists>s' cs. run (MigratePod E lm ns) s = (Done None, s') \<and>
    hist s' = h @ [ReadDir checkpoints_dir, ServicesGet ns ''dummy-service''] @ cs @
      [Exec Output [''sudo'', ''touch'', dummy_file], upload_call addr dummy_file] \<and>
    mset cs = mset (concat (map (file_calls checkpoints_dir addr) (fst (readDir E h checkpoints_dir))))"
proof -
  let ?files = "fst (readDir E h checkpoints_dir)"
  let ?s = "s\<lparr>hist := h @ [ReadDir checkpoints_dir]\<rparr>"
  obtain err' where ids: "run (PrintContainerIDs E ns) s =
      (Done (listed ps err, err'), s\<lparr>hist := hist s @ [PodsList ns]\<rparr>)"
    using run_PrintContainerIDs_listed [OF pl] by blast
  obtain s' css cs where up: "run (MigrateCheckpointParallelized E ?files checkpoints_dir ns) ?s = (Done None, s')"
    and css: "list_all2 (\<lambda>f. emits (upload_worker E checkpoints_dir addr f :: (call, 'm, unit) go) ()) ?files css"
    and hs: "hist s' = hist ?s @ [ServicesGet ns ''dummy-service''] @ cs @
           [Exec Output [''sudo'', ''touch'', dummy_file], upload_call addr dummy_file]"
    and cs: "mset cs = sum_list (map mset css)"
    by (rule run_MigrateCheckpointParallelized [OF svc, of ?files checkpoints_dir ?s])
  have "run (MigratePod E lm ns) s = (Done None, s')"
    using up mk
    by (simp add: MigratePod_def Let_def name [symmetric] ids file_op_def run_CheckpointPodCrio
        run_Terminate_seen [OF del] read_dir_def case_prod_beta h)
  moreover have "mset cs = mset (concat (map (file_calls checkpoints_dir addr) ?files))"
    using cs uploads_info_ok [OF info css] sum_list_mset_concat [of css] by simp
  ultimately show ?thesis using hs by (intro exI [of _ s'] exI [of _ cs]) simp
qed

section \<open>Uploads\<close>

text \<open>The upload commands of a history, in order.\<close>

fun is_upload :: "call \<Rightarrow> bool" where
  "is_upload (Exec CombinedOutput (c # d # args)) = (c = ''curl'' \<and> d = ''-X'')"
| "is_upload _ = False"

abbreviation uploads :: "history \<Rightarrow> history" where
  "uploads h \<equiv> filter is_upload h"

lemma is_upload_call [simp]: "is_upload (upload_call addr p)"
  by (simp add: upload_call_def upload_args_def)

lemma service_at_up: "service_up_after E ns addr 0 0 \<Longrightarrow> service_at E ns addr"
  by (auto simp: service_up_after_def service_at_def)

lemma run_WaitForServiceReady_up:
  assumes "service_up_after E ns addr 0 0" and "0 < loopBound E"
  obtains s' cs where "run (WaitForServiceReady E ''dummy-service'' ns) s = (Done (), s')"
    and "hist s' = hist s @ cs" and "uploads cs = []"
proof -
  obtain n where "loopBound E = Suc n" using assms(2) by (cases "loopBound E") auto
  then obtain s' where s': "run (WaitForServiceReady E ''dummy-service'' ns) s = (Done (), s')"
    using service_ready_loop_returns [OF assms(1), of s n] by (auto simp: WaitForServiceReady_def)
  have "calls_in (\<lambda>c. \<not> is_upload c) (WaitForServiceReady E ''dummy-service'' ns)"
    by (rule calls_in_WaitForServiceReady) simp_all
  from calls_in_runE [OF this s'] obtain cs where "hist s' = hist s @ cs" "list_all (\<lambda>c. \<not> is_upload c) cs"
    by blast
  with s' show thesis using that by (auto simp: list_all_iff filter_empty_conv)
qed

text \<open>What \<open>MigrateCheckpoint\<close> does for one file.\<close>

abbreviation chmod_upload :: "string \<Rightarrow> string \<times> 32 word \<Rightarrow> dir_entry \<Rightarrow> call list" where
  "chmod_upload dir addr f \<equiv>
     [Exec Output [''sudo'', ''chmod'', ''+rwx'', path_join dir (entry_name f)],
      upload_call addr (path_join dir (entry_name f))]"

lemma uploads_chmod_upload:
  "uploads (concat (map (chmod_upload dir addr) files)) =
     map (\<lambda>f. upload_call addr (path_join dir (entry_name f))) files"
  by (induction files) auto

lemma uploads_file_calls:
  "uploads (concat (map (file_calls dir addr) files)) =
     map (\<lambda>f. upload_call addr (path_join dir (entry_name f))) files"
  by (induction files) auto

lemma run_MigrateCheckpoint:
  assumes "service_up_after E ns addr 0 0" and "0 < loopBound E"
    and "readDir E (hist s) dir = (files, None)"
  shows "\<exists>s' cs. run (MigrateCheckpoint E dir ns) s = (Done None, s') \<and> hist s' = hist s @ cs \<and>
    uploads cs = map (\<lambda>f. upload_call addr (path_join dir (entry_name f))) files"
proof -
  let ?s = "s\<lparr>hist := hist s @ [ReadDir dir]\<rparr>"
  let ?f = "\<lambda>file. let checkpointPath = path_join dir (entry_name file) in
      bind_go (exec_cmd E Output [''sudo'', ''chmod'', ''+rwx'', checkpointPath]) (\<lambda>_.
      bind_go (exec_cmd E CombinedOutput (upload_args checkpointPath addr)) (\<lambda>_. Ret ()))"
  obtain s1 cs where w: "run (WaitForServiceReady E ''dummy-service'' ns) ?s = (Done (), s1)"
    and h: "hist s1 = hist ?s @ cs" "uploads cs = []"
    by (rule run_WaitForServiceReady_up [OF assms(1,2), of ?s])
  let ?s2 = "s1\<lparr>hist := hist s1 @ [ServicesGet ns ''dummy-service'']\<rparr>"
  have "run (for_each ?f files) ?s2 =
      (Done (), ?s2\<lparr>hist := hist ?s2 @ concat (map (chmod_upload dir addr) files)\<rparr>)"
    by (rule run_for_each_calls) (simp add: Let_def exec_cmd_def upload_call_def case_prod_beta)
  then have "run (MigrateCheckpoint E dir ns) s =
      (Done None, ?s2\<lparr>hist := hist ?s2 @ concat (map (chmod_upload dir addr) files)\<rparr>)"
    using w assms(3)
    by (simp add: MigrateCheckpoint_def read_dir_def run_GetDummyServiceIPAndPort [OF service_at_up [OF assms(1)]])
  then show ?thesis using h uploads_chmod_upload [of dir addr files] by simp
qed

lemma MigrateCheckpointParallelized_uploads:
  assumes "service_at E ns addr" and "info_ok E"
  shows "\<exists>s' us. run (MigrateCheckpointParallelized E files dir ns) s = (Done None, s') \<and>
    uploads (hist s') = uploads (hist s) @ us @ [upload_call addr dummy_file] \<and>
    mset us = mset (map (\<lambda>f. upload_call addr (path_join dir (entry_name f))) files)"
proof (rule run_MigrateCheckpointParallelized [OF assms(1), of files dir s])
  fix s' css cs
  assume run: "run (MigrateCheckpointParallelized E files dir ns) s = (Done None, s')"
    and css: "list_all2 (\<lambda>f. emits (upload_worker E dir addr f :: (call, 'a, unit) go) ()) files css"
    and h: "hist s' = hist s @ [ServicesGet ns ''dummy-service''] @ cs @
           [Exec Output [''sudo'', ''touch'', dummy_file], upload_call addr dummy_file]"
    and cs: "mset cs = sum_list (map mset css)"
  have "mset cs = mset (concat (map (file_calls dir addr) files))"
    using cs uploads_info_ok [OF assms(2) css] sum_list_mset_concat [of css] by simp
  then have "mset (uploads cs) = mset (uploads (concat (map (file_calls dir addr) files)))"
    by (metis mset_filter)
  with run h show ?thesis
    by (intro exI [of _ s'] exI [of _ "uploads cs"]) (simp add: uploads_file_calls)
qed

section \<open>Properties\<close>

text \<open>C9: the parallel upload sends every file of the list exactly once, in some order, and the
  marker \<open>dummy\<close> after all of them; it returns nil under every schedule and whatever the
  commands answer.\<close>

theorem MigrateCheckpointParallelized_marker_last:
  assumes "service_at E ns addr" and "info_ok E"
  shows "\<exists>s' us. run (MigrateCheckpointParallelized E files dir ns) s = (Done None, s') \<and>
    uploads (hist s') = uploads (hist s) @ us @ [upload_call addr dummy_file] \<and>
    mset us = mset (map (\<lambda>f. upload_call addr (path_join dir (entry_name f))) files)"
  using assms by (rule MigrateCheckpointParallelized_uploads)

definition sample_upload_env :: env where
  "sample_upload_env = env0\<lparr>
     servicesGet := \<lambda>h ns n. (Some \<lparr>svc_Meta = meta0, svc_ClusterIP = ''10.0.0.7'',
       svc_Ports = [(''http'', 80, 8080)], svc_Selector = None\<rparr>, None),
     readDir := \<lambda>h p. ([DirEntry ''a'', DirEntry ''b''], None),
     execCmd := \<lambda>h m args. (''not found'', None),
     schedule := \<lambda>h. [1, 0, 1], loopBound := 1\<rparr>"

lemma sample_upload_env_ok:
  "service_up_after sample_upload_env ns (''10.0.0.7'', 80) 0 0" "info_ok sample_upload_env"
  "deletion_seen sample_upload_env ns name"
  by (simp_all add: service_up_after_def info_ok_def deletion_seen_def sample_upload_env_def env0_def contains_def)

theorem MigrateCheckpointParallelized_marker_last_witness:
  "\<exists>us. uploads (hist (snd (run (MigrateCheckpointParallelized sample_upload_env
      [DirEntry ''a''] checkpoints_dir ''test'') start))) = us @ [upload_call (''10.0.0.7'', 80) dummy_file] \<and>
    mset us = {#upload_call (''10.0.0.7'', 80) (path_join checkpoints_dir ''a'')#}"
  using MigrateCheckpointParallelized_marker_last
      [OF service_at_up [OF sample_upload_env_ok(1)] sample_upload_env_ok(2),
       where files = "[DirEntry ''a'']" and dir = checkpoints_dir and s = start and ns = "''test''"]
  by auto

text \<open>\<open>MigrateCheckpoint\<close>, the sequential upload, sends the files of the directory in
  directory order, each once, and returns nil: the parallel upload sends the same files.\<close>

lemma MigrateCheckpoint_uploads:
  assumes "service_up_after E ns addr 0 0" and "0 < loopBound E" and "readDir E (hist s) dir = (files, None)"
  shows "\<exists>s'. run (MigrateCheckpoint E dir ns) s = (Done None, s') \<and>
    uploads (hist s') = uploads (hist s) @ map (\<lambda>f. upload_call addr (path_join dir (entry_name f))) files"
  using run_MigrateCheckpoint [OF assms] by auto

lemma MigrateCheckpoint_uploads_witness:
  "\<exists>s'. run (MigrateCheckpoint sample_upload_env checkpoints_dir ''test'') start = (Done None, s') \<and>
    uploads (hist s') = [upload_call (''10.0.0.7'', 80) (path_join checkpoints_dir ''a''),
      upload_call (''10.0.0.7'', 80) (path_join checkpoints_dir ''b'')]"
proof -
  have "0 < loopBound sample_upload_env"
    and "readDir sample_upload_env (hist start) checkpoints_dir = ([DirEntry ''a'', DirEntry ''b''], None)"
    by (simp_all add: sample_upload_env_def)
  from MigrateCheckpoint_uploads [OF sample_upload_env_ok(1) this] show ?thesis by simp
qed

text \<open>C14: the order of the sequential migration, for every answer of the kubelet and of the upload
  commands: the folder is emptied, every listed container is checkpointed once, then the source
  pod is deleted, then every file of the folder is uploaded once, and the marker last. In
  particular the pod is deleted and nil returned even if no checkpoint request succeeded.\<close>

theorem MigratePod_order:
  fixes s :: "(call, 'm) world_scheme"
  assumes "podsList E (hist s) ns = (Some ps, err)"
    and "\<And>h. fileOp E h (MkdirAll checkpoints_dir) = None"
    and "deletion_seen E ns (om_Name (lm_Meta lm))" and "service_at E ns addr" and "info_ok E"
  shows "\<exists>s' cs h. run (MigratePod E lm ns) s = (Done None, s') \<and>
    h = hist s @ prepare_calls ns (om_Name (lm_Meta lm)) (listed ps err) @
      deletion_calls (om_Name (lm_Meta lm)) ns \<and>
    hist s' = h @ [ReadDir checkpoints_dir, ServicesGet ns ''dummy-service''] @ cs @
      [Exec Output [''sudo'', ''touch'', dummy_file], upload_call addr dummy_file] \<and>
    mset cs = mset (concat (map (file_calls checkpoints_dir addr) (fst (readDir E h checkpoints_dir))))"
  using run_MigratePod [OF refl assms refl] by blast

theorem MigratePod_order_witness:
  "\<exists>s' :: call world. run (MigratePod sample_upload_env sample_migration ''test'') start = (Done None, s') \<and>
     PodsDelete ''test'' ''mig'' \<in> set (hist s')"
proof -
  have "podsList sample_upload_env (hist start) ''test'' = (Some [], None)"
    and "\<And>h. fileOp sample_upload_env h (MkdirAll checkpoints_dir) = None"
    by (simp_all add: sample_upload_env_def env0_def)
  from MigratePod_order [of sample_upload_env start "''test''", OF this sample_upload_env_ok(3)
      service_at_up [OF sample_upload_env_ok(1)] sample_upload_env_ok(2), of sample_migration]
  show ?thesis by (auto simp: deletion_calls_def sample_migration_def)
qed

end
