(* ===== verification/Pipeline.thy ===== *)
theory Pipeline
  imports Migrate
begin

text \<open>
  \<open>MigratePodPipelined\<close> of \<open>controllers/migrate.go\<close> as a machine of goroutines: the stage
  that checkpoints, the function itself, one worker per received path, and the goroutine that
  closes the second channel. The code between two channel or wait group operations is a
  program of theory \<open>Go_Prog\<close> that the machine executes call by call, so that the calls of
  different goroutines interleave. Both channels have no buffer (\<open>len(checkpoints)\<close> is 0), so a
  send and its receive are one step of two goroutines. The step function is given the name of
  the goroutine that moves; every sequence of such choices is a possible execution.
\<close>

section \<open>Definitions\<close>

text \<open>The first goroutine up to its send: \<open>False\<close> is one of its early returns.\<close>

definition stage1_body :: "env \<Rightarrow> containerRef list \<Rightarrow> string \<Rightarrow> string \<Rightarrow> (call, unit, bool) go" where
  "stage1_body E containers ns name =
     bind_go (file_op E (RemoveAll checkpoints_dir)) (\<lambda>err.
       if err \<noteq> None then Ret False
       else bind_go (file_op E (MkdirAll checkpoints_dir)) (\<lambda>err.
         if err \<noteq> None then Ret False
         else bind_go (CheckpointPodPipelined E containers ns name) (\<lambda>err.
           if err \<noteq> None then Ret False
           else bind_go (file_op E (Chown checkpoints_dir)) (\<lambda>err.
             if err \<noteq> None then Ret False else Ret True))))"

text \<open>A worker of the second stage up to its send.\<close>

definition worker_body :: "env \<Rightarrow> string \<Rightarrow> string \<Rightarrow> (call, unit, bool) go" where
  "worker_body E ns path =
     bind_go (read_dir E path) (\<lambda>(files, err).
       if err \<noteq> None then Ret False
       else bind_go (MigrateCheckpointParallelized E files path ns) (\<lambda>err.
         if err \<noteq> None then Ret False else Ret True))"

datatype stage1 = S1_Body "(call, unit, bool) go" | S1_Send | S1_Close | S1_End

datatype main = M_Range | M_Got string | M_Terminate "(call, unit, goerr option) go" | M_Drain | M_Clear
  | M_Return "goerr option"

datatype worker = W_Body "(call, unit, bool) go" | W_Send | W_Done | W_End

datatype closer = C_None | C_Wait | C_Close | C_End

text \<open>
  \<open>p_wg\<close> is the counter of the wait group, the two booleans say which channels are closed, and
  \<open>p_crash\<close> is the panic that ended the process.
\<close>

record pipeline =
  p_world :: "call world"
  p_stage1 :: stage1
  p_main :: main
  p_workers :: "worker list"
  p_closer :: closer
  p_wg :: int
  p_checkpoints_closed :: bool
  p_migrated_closed :: bool
  p_crash :: "go_panic option"

text \<open>One call of a goroutine's code.\<close>

definition code_step :: "('b \<Rightarrow> pipeline \<Rightarrow> pipeline) \<Rightarrow> ((call, unit, 'a) go \<Rightarrow> 'b) \<Rightarrow> (call, unit, 'a) go \<Rightarrow>
    ('a \<Rightarrow> 'b) \<Rightarrow> pipeline \<Rightarrow> pipeline option" where
  "code_step put wrap p k st =
     (case p of
        Ret x \<Rightarrow> Some (put (k x) st)
      | Panic e \<Rightarrow> Some (st\<lparr>p_crash := Some e\<rparr>)
      | NoFuel \<Rightarrow> None
      | Act a \<Rightarrow>
          (case a (p_world st) of
             None \<Rightarrow> None
           | Some (w, q) \<Rightarrow> Some (put (wrap q) (st\<lparr>p_world := w\<rparr>))))"

definition put_stage1 :: "stage1 \<Rightarrow> pipeline \<Rightarrow> pipeline" where
  "put_stage1 x st = st\<lparr>p_stage1 := x\<rparr>"

definition put_main :: "main \<Rightarrow> pipeline \<Rightarrow> pipeline" where
  "put_main x st = st\<lparr>p_main := x\<rparr>"

definition put_worker :: "nat \<Rightarrow> worker \<Rightarrow> pipeline \<Rightarrow> pipeline" where
  "put_worker i x st = st\<lparr>p_workers := (p_workers st)[i := x]\<rparr>"

text \<open>The goroutine that checkpoints; its send needs the function's receive.\<close>

definition stage1_step :: "pipeline \<Rightarrow> pipeline option" where
  "stage1_step st =
     (case p_stage1 st of
        S1_Body p \<Rightarrow> code_step put_stage1 S1_Body p (\<lambda>b. if b then S1_Send else S1_Close) st
      | S1_Send \<Rightarrow>
          (case p_main st of
             M_Range \<Rightarrow> Some (st\<lparr>p_stage1 := S1_Close, p_main := M_Got checkpoints_dir\<rparr>)
           | _ \<Rightarrow> None)
      | S1_Close \<Rightarrow>
          Some (if p_checkpoints_closed st then st\<lparr>p_crash := Some CloseOfClosedChannel\<rparr>
                else st\<lparr>p_stage1 := S1_End, p_checkpoints_closed := True\<rparr>)
      | S1_End \<Rightarrow> None)"

text \<open>
  The function after \<open>PrintContainerIDs\<close>: the loop over the first channel, the start of the
  closing goroutine, the deletion of the pod, the loop over the second channel.
\<close>

definition main_step :: "env \<Rightarrow> string \<Rightarrow> string \<Rightarrow> pipeline \<Rightarrow> pipeline option" where
  "main_step E ns name st =
     (case p_main st of
        M_Range \<Rightarrow>
          (if p_checkpoints_closed st
           then Some (st\<lparr>p_main := M_Terminate (TerminateCheckpointedPod E name ns), p_closer := C_Wait\<rparr>)
           else None)
      | M_Got path \<Rightarrow>
          Some (st\<lparr>p_main := M_Range, p_wg := p_wg st + 1,
                   p_workers := p_workers st @ [W_Body (worker_body E ns path)]\<rparr>)
      | M_Terminate p \<Rightarrow>
          code_step put_main M_Terminate p (\<lambda>err. if err \<noteq> None then M_Return err else M_Drain) st
      | M_Drain \<Rightarrow> if p_migrated_closed st then Some (st\<lparr>p_main := M_Return None\<rparr>) else None
      | M_Clear \<Rightarrow>
          Some (st\<lparr>p_main := M_Drain,
                   p_world := snd (run (file_op E (RemoveAll checkpoints_dir)) (p_world st))\<rparr>)
      | M_Return _ \<Rightarrow> None)"

definition worker_step :: "nat \<Rightarrow> pipeline \<Rightarrow> pipeline option" where
  "worker_step i st =
     (if i < length (p_workers st) then
        (case p_workers st ! i of
           W_Body p \<Rightarrow> code_step (put_worker i) W_Body p (\<lambda>b. if b then W_Send else W_Done) st
         | W_Send \<Rightarrow>
             (if p_migrated_closed st then Some (st\<lparr>p_crash := Some SendOnClosedChannel\<rparr>)
              else (case p_main st of
                      M_Drain \<Rightarrow> Some (put_worker i W_Done (st\<lparr>p_main := M_Clear\<rparr>))
                    | _ \<Rightarrow> None))
         | W_Done \<Rightarrow>
             Some (if p_wg st \<le> 0 then st\<lparr>p_crash := Some NegativeWaitGroup\<rparr>
                   else put_worker i W_End (st\<lparr>p_wg := p_wg st - 1\<rparr>))
         | W_End \<Rightarrow> None)
      else None)"

definition closer_step :: "pipeline \<Rightarrow> pipeline option" where
  "closer_step st =
     (case p_closer st of
        C_Wait \<Rightarrow> if p_wg st = 0 then Some (st\<lparr>p_closer := C_Close\<rparr>) else None
      | C_Close \<Rightarrow>
          Some (if p_migrated_closed st then st\<lparr>p_crash := Some CloseOfClosedChannel\<rparr>
                else st\<lparr>p_closer := C_End, p_migrated_closed := True\<rparr>)
      | _ \<Rightarrow> None)"

datatype goroutine = Stage1 | Main | Worker nat | Closer

definition pipeline_step :: "env \<Rightarrow> string \<Rightarrow> string \<Rightarrow> goroutine \<Rightarrow> pipeline \<Rightarrow> pipeline option" where
  "pipeline_step E ns name g st =
     (if p_crash st \<noteq> None then None
      else case g of
        Stage1 \<Rightarrow> stage1_step st
      | Main \<Rightarrow> main_step E ns name st
      | Worker i \<Rightarrow> worker_step i st
      | Closer \<Rightarrow> closer_step st)"

definition pipeline_start :: "env \<Rightarrow> containerRef list \<Rightarrow> string \<Rightarrow> string \<Rightarrow> call world \<Rightarrow> pipeline" where
  "pipeline_start E containers ns name w = \<lparr>
     p_world = w, p_stage1 = S1_Body (stage1_body E containers ns name), p_main = M_Range, p_workers = [],
     p_closer = C_None, p_wg = 0, p_checkpoints_closed = False, p_migrated_closed = False, p_crash = None\<rparr>"

text \<open>
  \<open>MigratePodPipelined\<close>: the containers are listed first (an error of that is only logged),
  then the machine runs; \<open>MigratePodPipelined E lm ns gs w\<close> executes the choices \<open>gs\<close>, of which
  those of a goroutine that cannot move change nothing.
\<close>

abbreviation run_pipeline :: "env \<Rightarrow> string \<Rightarrow> string \<Rightarrow> goroutine list \<Rightarrow> pipeline \<Rightarrow> pipeline" where
  "run_pipeline E ns name \<equiv> run_machine (pipeline_step E ns name)"

definition MigratePodPipelined :: "env \<Rightarrow> liveMigration \<Rightarrow> string \<Rightarrow> goroutine list \<Rightarrow> call world \<Rightarrow> pipeline outcome" where
  "MigratePodPipelined E migratingPod ns gs w =
     (let name = om_Name (lm_Meta migratingPod) in
      case run (PrintContainerIDs E ns) w of
        (Done (containers, _), w1) \<Rightarrow> Done (run_pipeline E ns name gs (pipeline_start E containers ns name w1))
      | (Panicked e, _) \<Rightarrow> Panicked e
      | (Stuck, _) \<Rightarrow> Stuck
      | (OutOfFuel, _) \<Rightarrow> OutOfFuel)"

text \<open>The transition system: some goroutine moves.\<close>

inductive pipeline_trans :: "env \<Rightarrow> string \<Rightarrow> string \<Rightarrow> pipeline \<Rightarrow> pipeline \<Rightarrow> bool" for E ns name where
  moves: "pipeline_step E ns name g st = Some st' \<Longrightarrow> pipeline_trans E ns name st st'"

inductive_simps pipeline_trans_iff: "pipeline_trans E ns name st st'"

interpretation pipe_machine: machine "pipeline_step E ns name" "pipeline_trans E ns name" for E ns name
  by unfold_locales (simp add: pipeline_trans_iff)

lemma code_stepE [consumes 1, case_names ret panic act]:
  assumes "code_step put wrap p k st = Some st'"
  obtains x where "p = Ret x" and "st' = put (k x) st"
  | e where "p = Panic e" and "st' = st\<lparr>p_crash := Some e\<rparr>"
  | a w q where "p = Act a" and "a (p_world st) = Some (w, q)" and "st' = put (wrap q) (st\<lparr>p_world := w\<rparr>)"
  using assms by (auto simp: code_step_def split: prog.splits option.splits)

lemma worker_stepE [consumes 1, case_names body send finish]:
  assumes "worker_step i st = Some st'"
  obtains p where "i < length (p_workers st)" and "p_workers st ! i = W_Body p"
    and "code_step (put_worker i) W_Body p (\<lambda>b. if b then W_Send else W_Done) st = Some st'"
  | "i < length (p_workers st)" and "p_workers st ! i = W_Send"
    and "p_migrated_closed st \<and> st' = st\<lparr>p_crash := Some SendOnClosedChannel\<rparr> \<or>
      \<not> p_migrated_closed st \<and> p_main st = M_Drain \<and> st' = put_worker i W_Done (st\<lparr>p_main := M_Clear\<rparr>)"
  | "i < length (p_workers st)" and "p_workers st ! i = W_Done"
    and "p_wg st \<le> 0 \<and> st' = st\<lparr>p_crash := Some NegativeWaitGroup\<rparr> \<or>
      0 < p_wg st \<and> st' = put_worker i W_End (st\<lparr>p_wg := p_wg st - 1\<rparr>)"
  using assms by (auto simp: worker_step_def split: if_splits worker.splits main.splits)

section \<open>Every execution ends\<close>

text \<open>
  Each step makes the following tuple smaller: whether the process runs, what the checkpointing
  goroutine has left, the phase of the first loop, what each worker has left, what the function
  has left, and what the closing goroutine has left.
\<close>

definition sub_prog :: "(('s, 'a) prog \<times> ('s, 'a) prog) set" where
  "sub_prog = {(q, p). \<exists>a s s'. p = Act a \<and> a s = Some (s', q)}"

lemma wf_sub_prog: "wf (sub_prog :: (('s, 'a) prog \<times> ('s, 'a) prog) set)"
proof (rule wfUNIVI)
  fix P :: "('s, 'a) prog \<Rightarrow> bool" and p
  assume step: "\<forall>p. (\<forall>q. (q, p) \<in> sub_prog \<longrightarrow> P q) \<longrightarrow> P p"
  show "P p"
  proof (induction p)
    case (Act a)
    then have "P q" if "(q, Act a) \<in> sub_prog" for q using that by (auto simp: sub_prog_def)
    with step show ?case by blast
  qed (use step in \<open>auto simp: sub_prog_def\<close>)
qed

fun stage1_rank :: "stage1 \<Rightarrow> nat \<times> (call, unit, bool) go" where
  "stage1_rank (S1_Body p) = (3, p)"
| "stage1_rank S1_Send = (2, NoFuel)"
| "stage1_rank S1_Close = (1, NoFuel)"
| "stage1_rank S1_End = (0, NoFuel)"

fun worker_rank :: "worker \<Rightarrow> nat \<times> (call, unit, bool) go" where
  "worker_rank (W_Body p) = (3, p)"
| "worker_rank W_Send = (2, NoFuel)"
| "worker_rank W_Done = (1, NoFuel)"
| "worker_rank W_End = (0, NoFuel)"

fun loop_phase :: "main \<Rightarrow> nat" where
  "loop_phase (M_Got _) = 2"
| "loop_phase M_Range = 1"
| "loop_phase _ = 0"

fun main_rank :: "main \<Rightarrow> nat \<times> (call, unit, goerr option) go" where
  "main_rank (M_Terminate p) = (3, p)"
| "main_rank M_Clear = (2, NoFuel)"
| "main_rank M_Drain = (1, NoFuel)"
| "main_rank _ = (0, NoFuel)"

fun closer_rank :: "closer \<Rightarrow> nat" where
  "closer_rank C_None = 3"
| "closer_rank C_Wait = 2"
| "closer_rank C_Close = 1"
| "closer_rank C_End = 0"

definition left_rel :: "((nat \<times> (call, unit, 'a) go) \<times> nat \<times> (call, unit, 'a) go) set" where
  "left_rel = less_than <*lex*> sub_prog"

lemma wf_left_rel: "wf left_rel"
  unfolding left_rel_def by (intro wf_lex_prod wf_less_than wf_sub_prog)

definition pipeline_rank where
  "pipeline_rank st = (if p_crash st = None then 1 else 0 :: nat, stage1_rank (p_stage1 st),
     loop_phase (p_main st), map worker_rank (p_workers st), main_rank (p_main st), closer_rank (p_closer st))"

definition pipeline_rel where
  "pipeline_rel = inv_image (less_than <*lex*> left_rel <*lex*> less_than <*lex*> listrel1 left_rel <*lex*>
     left_rel <*lex*> less_than) pipeline_rank"

lemma wf_pipeline_rel: "wf pipeline_rel"
  unfolding pipeline_rel_def
  by (intro wf_inv_image wf_lex_prod wf_less_than wf_left_rel) (simp add: wf_listrel1_iff wf_left_rel)

lemma listrel1_update:
  "i < length xs \<Longrightarrow> (y, f (xs ! i)) \<in> r \<Longrightarrow> (map f xs)[i := y] = zs \<Longrightarrow> (zs, map f xs) \<in> listrel1 r"
  by (auto simp: listrel1_iff_update intro!: exI [of _ "f (xs ! i)"] exI [of _ i])
    (metis length_map list_update_id nth_map)

lemmas rank_defs = pipeline_rel_def pipeline_rank_def left_rel_def sub_prog_def

lemma worker_step_decreases:
  assumes "worker_step i st = Some st'" and "p_crash st = None"
  shows "(st', st) \<in> pipeline_rel"
proof -
  have upd: "(put_worker i x (st\<lparr>p_world := w, p_main := m, p_wg := n\<rparr>), st) \<in> pipeline_rel"
    if "i < length (p_workers st)" "(worker_rank x, worker_rank (p_workers st ! i)) \<in> left_rel"
      "loop_phase m = loop_phase (p_main st)" for x w m n
  proof -
    have "(map worker_rank ((p_workers st)[i := x]), map worker_rank (p_workers st)) \<in> listrel1 left_rel"
      using that(1,2) by (intro listrel1_update) (simp_all add: map_update)
    then show ?thesis using that(3) assms(2)
      by (simp add: pipeline_rel_def pipeline_rank_def put_worker_def)
  qed
  have crash: "(st\<lparr>p_crash := Some e\<rparr>, st) \<in> pipeline_rel" for e
    using assms(2) by (simp add: rank_defs)
  from assms(1) show ?thesis
  proof (cases rule: worker_stepE)
    case (body p)
    from body(3) show ?thesis
    proof (cases rule: code_stepE)
      case (ret x)
      then show ?thesis
        using upd [where x = "if x then W_Send else W_Done" and m = "p_main st" and w = "p_world st" and n = "p_wg st"] body
        by (simp add: left_rel_def)
    next
      case (act a w q)
      then show ?thesis
        using upd [where x = "W_Body q" and m = "p_main st" and w = w and n = "p_wg st"] body by (auto simp: left_rel_def sub_prog_def)
    qed (simp add: crash)
  next
    case send
    then show ?thesis
      using upd [where x = W_Done and m = M_Clear and w = "p_world st" and n = "p_wg st"] crash by (auto simp: left_rel_def)
  next
    case finish
    then show ?thesis
      using upd [where x = W_End and m = "p_main st" and w = "p_world st" and n = "p_wg st - 1"] crash by (auto simp: left_rel_def)
  qed
qed

lemma pipeline_step_decreases:
  assumes "pipeline_step E ns name g st = Some st'"
  shows "(st', st) \<in> pipeline_rel"
proof (cases g)
  case Stage1
  with assms show ?thesis
    by (auto simp: pipeline_step_def stage1_step_def code_step_def put_stage1_def rank_defs
        split: if_splits stage1.splits prog.splits option.splits main.splits)
next
  case Main
  with assms show ?thesis
    by (auto simp: pipeline_step_def main_step_def code_step_def put_main_def rank_defs
        split: if_splits prog.splits option.splits main.splits)
next
  case (Worker i)
  with assms show ?thesis by (auto simp: pipeline_step_def intro: worker_step_decreases split: if_splits)
next
  case Closer
  with assms show ?thesis
    by (auto simp: pipeline_step_def closer_step_def pipeline_rel_def pipeline_rank_def
        split: if_splits closer.splits)
qed

lemma wf_pipeline_trans: "wf {(st', st). pipeline_trans E ns name st st'}"
  by (rule wf_subset [OF wf_pipeline_rel]) (auto simp: pipeline_trans_iff intro: pipeline_step_decreases)

section \<open>How the goroutines are coupled\<close>

text \<open>At most one worker is started, because the first goroutine sends at most one path.\<close>

definition wiring :: "pipeline \<Rightarrow> bool" where
  "wiring st \<longleftrightarrow>
     (p_checkpoints_closed st \<longleftrightarrow> p_stage1 st = S1_End) \<and>
     (p_migrated_closed st \<longleftrightarrow> p_closer st = C_End) \<and>
     (1 < fst (stage1_rank (p_stage1 st)) \<longrightarrow> p_main st = M_Range \<and> p_workers st = []) \<and>
     (0 < loop_phase (p_main st) \<longleftrightarrow> p_closer st = C_None) \<and>
     (loop_phase (p_main st) = 0 \<longrightarrow> p_stage1 st = S1_End) \<and>
     (loop_phase (p_main st) = 2 \<longrightarrow> p_workers st = [] \<and> p_main st = M_Got checkpoints_dir) \<and>
     length (p_workers st) \<le> 1 \<and> (p_main st = M_Return None \<longrightarrow> p_closer st = C_End) \<and>
     p_wg st = int (length (filter (\<lambda>w. w \<noteq> W_End) (p_workers st))) \<and>
     (closer_rank (p_closer st) < 2 \<longrightarrow> list_all (\<lambda>w. w = W_End) (p_workers st))"

lemma sole_worker:
  assumes "wiring st" and "i < length (p_workers st)"
  shows "i = 0" and "p_workers st = [p_workers st ! i]"
  using assms by (cases "p_workers st"; simp add: wiring_def)+

lemma wiring_start: "wiring (pipeline_start E containers ns name w)"
  by (simp add: wiring_def pipeline_start_def)

lemma wiring_worker_step:
  assumes "wiring st" and "worker_step i st = Some st'"
  shows "wiring st'"
  using assms(2)
proof (cases rule: worker_stepE)
  case (body p)
  then have w: "p_workers st = [W_Body p]" and i: "i = 0"
    using sole_worker [OF assms(1), of i] by simp_all
  from body(3) show ?thesis
    by (cases rule: code_stepE) (use assms(1) w i in \<open>auto simp: wiring_def put_worker_def\<close>)
next
  case send
  then have w: "p_workers st = [W_Send]" and i: "i = 0"
    using sole_worker [OF assms(1), of i] by simp_all
  with send(3) assms(1) show ?thesis by (auto simp: wiring_def put_worker_def)
next
  case finish
  then have w: "p_workers st = [W_Done]" and i: "i = 0"
    using sole_worker [OF assms(1), of i] by simp_all
  with finish(3) assms(1) show ?thesis by (auto simp: wiring_def put_worker_def)
qed

lemma wiring_stage1_step:
  assumes "wiring st" and "stage1_step st = Some st'"
  shows "wiring st'"
proof (cases "p_stage1 st")
  case (S1_Body p)
  with assms(2) have "code_step put_stage1 S1_Body p (\<lambda>b. if b then S1_Send else S1_Close) st = Some st'"
    by (simp add: stage1_step_def)
  then show ?thesis
    by (cases rule: code_stepE) (use assms(1) S1_Body in \<open>auto simp: wiring_def put_stage1_def\<close>)
qed (use assms in \<open>auto simp: wiring_def stage1_step_def split: main.splits if_splits\<close>)

lemma wiring_main_step:
  assumes "wiring st" and "main_step E ns name st = Some st'"
  shows "wiring st'"
proof (cases "p_main st")
  case (M_Terminate p)
  with assms(2) have "code_step put_main M_Terminate p (\<lambda>err. if err \<noteq> None then M_Return err else M_Drain) st = Some st'"
    by (simp add: main_step_def)
  then show ?thesis
    by (cases rule: code_stepE) (use assms(1) M_Terminate in \<open>auto simp: wiring_def put_main_def\<close>)
qed (use assms in \<open>auto simp: wiring_def main_step_def split: if_splits\<close>)

lemma wiring_closer_step:
  assumes "wiring st" and "closer_step st = Some st'"
  shows "wiring st'"
  using assms
  by (auto simp: wiring_def closer_step_def list_all_iff filter_empty_conv split: closer.splits if_splits)

lemma wiring_step: "wiring st \<Longrightarrow> pipeline_step E ns name g st = Some st' \<Longrightarrow> wiring st'"
  by (auto simp: pipeline_step_def split: if_splits goroutine.splits
      intro: wiring_worker_step wiring_stage1_step wiring_main_step wiring_closer_step)

interpretation pipe: inductive_invariant "\<lambda>st. st = pipeline_start E containers ns name w"
  "pipeline_trans E ns name" wiring
  by unfold_locales (auto simp: wiring_start pipeline_trans_iff intro: wiring_step)

section \<open>The calls of the machine\<close>

text \<open>All code that is still to run makes calls in \<open>P\<close> only.\<close>

definition code_calls :: "(call \<Rightarrow> bool) \<Rightarrow> pipeline \<Rightarrow> bool" where
  "code_calls P st \<longleftrightarrow>
     (\<forall>p. p_stage1 st = S1_Body p \<longrightarrow> calls_in P p) \<and> (\<forall>p. p_main st = M_Terminate p \<longrightarrow> calls_in P p) \<and>
     (\<forall>p. W_Body p \<in> set (p_workers st) \<longrightarrow> calls_in P p)"

lemma code_calls_step:
  assumes "code_step put wrap p k st = Some st'" and "calls_in P p"
    and "\<And>x st. p_world (put x st) = p_world st"
  shows "extends P (p_world st) (p_world st')"
  using assms(1)
proof (cases rule: code_stepE)
  case (act a w q)
  then show ?thesis using assms(2,3) by (auto simp: guar_Act_iff)
qed (simp_all add: assms(3))

lemma code_calls_left:
  assumes "code_step put wrap p k st = Some st'" and "calls_in P p"
  obtains x where "st' = put (k x) st" | e where "st' = st\<lparr>p_crash := Some e\<rparr>"
  | q w where "st' = put (wrap q) (st\<lparr>p_world := w\<rparr>)" and "calls_in P q"
  using assms(1)
proof (cases rule: code_stepE)
  case (act a w q)
  then show thesis using assms(2) that(3) by (auto simp: guar_Act_iff)
qed (use that in blast)+

lemma pipeline_step_calls:
  assumes "pipeline_step E ns name g st = Some st'" and "code_calls P st" and "P (RemoveAll checkpoints_dir)"
    and "calls_in P (TerminateCheckpointedPod E name ns :: (call, unit, goerr option) go)"
    and "\<And>path. calls_in P (worker_body E ns path)"
  shows "code_calls P st' \<and> extends P (p_world st) (p_world st')"
proof (cases g)
  case Stage1
  then have step: "stage1_step st = Some st'" using assms(1) by (simp add: pipeline_step_def split: if_splits)
  show ?thesis
  proof (cases "p_stage1 st")
    case (S1_Body p)
    then have c: "calls_in P p" and s: "code_step put_stage1 S1_Body p (\<lambda>b. if b then S1_Send else S1_Close) st = Some st'"
      using step assms(2) by (simp_all add: stage1_step_def code_calls_def)
    from s c have "extends P (p_world st) (p_world st')" by (rule code_calls_step) (simp add: put_stage1_def)
    moreover from s c have "code_calls P st'"
      by (rule code_calls_left) (use assms(2) in \<open>auto simp: code_calls_def put_stage1_def split: if_splits\<close>)
    ultimately show ?thesis by simp
  qed (use step assms(2) in \<open>auto simp: stage1_step_def code_calls_def split: main.splits if_splits\<close>)
next
  case Main
  then have step: "main_step E ns name st = Some st'" using assms(1) by (simp add: pipeline_step_def split: if_splits)
  show ?thesis
  proof (cases "p_main st")
    case (M_Terminate p)
    then have c: "calls_in P p" and s: "code_step put_main M_Terminate p (\<lambda>err. if err \<noteq> None then M_Return err else M_Drain) st = Some st'"
      using step assms(2) by (simp_all add: main_step_def code_calls_def)
    from s c have "extends P (p_world st) (p_world st')" by (rule code_calls_step) (simp add: put_main_def)
    moreover from s c have "code_calls P st'"
      by (rule code_calls_left) (use assms(2) in \<open>auto simp: code_calls_def put_main_def split: if_splits\<close>)
    ultimately show ?thesis by simp
  next
    case M_Clear
    then show ?thesis using step assms(2,3)
      by (auto simp: main_step_def code_calls_def file_op_def extends_def)
  qed (use step assms(2,4,5) in \<open>auto simp: main_step_def code_calls_def split: if_splits\<close>)
next
  case (Worker i)
  then have step: "worker_step i st = Some st'" using assms(1) by (simp add: pipeline_step_def split: if_splits)
  have upd: "W_Body q \<in> set ((p_workers st)[i := x]) \<Longrightarrow> W_Body q = x \<or> W_Body q \<in> set (p_workers st)" for q x
    by (auto dest: set_update_subset_insert [THEN subsetD])
  from step show ?thesis
  proof (cases rule: worker_stepE)
    case (body p)
    then have c: "calls_in P p" using assms(2) unfolding code_calls_def by (metis nth_mem)
    from body(3) c have "extends P (p_world st) (p_world st')" by (rule code_calls_step) (simp add: put_worker_def)
    moreover from body(3) c have "code_calls P st'"
      by (rule code_calls_left)
        (use assms(2) in \<open>auto simp: code_calls_def put_worker_def split: if_splits dest!: upd\<close>)
    ultimately show ?thesis by simp
  qed (use assms(2) in \<open>auto simp: code_calls_def put_worker_def dest!: upd\<close>)
next
  case Closer
  then show ?thesis using assms(1,2)
    by (auto simp: pipeline_step_def closer_step_def code_calls_def split: if_splits closer.splits)
qed

end
