(* ===== verification/Pipeline_Log.thy ===== *)
theory Pipeline_Log
  imports Pipeline
begin

text \<open>
  What an execution of \<open>MigratePodPipelined\<close> does to the outside: the calls that each
  goroutine has made, as an invariant of the machine of theory \<open>Pipeline\<close>, and from it the
  order of checkpoints, deletion, uploads and cleanup, and that every execution ends with the
  function's return when the outside answers.
\<close>

section \<open>The code of the goroutines\<close>

text \<open>
  \<open>live ok P body p ds\<close>: the code \<open>p\<close> is what is left of \<open>body\<close> after the calls \<open>ds\<close>; it
  makes only calls in \<open>P\<close>, and if \<open>ok\<close> holds it goes on until it returns.
\<close>

definition live :: "bool \<Rightarrow> (call \<Rightarrow> bool) \<Rightarrow> (call, unit, 'a) go \<Rightarrow> (call, unit, 'a) go \<Rightarrow> history \<Rightarrow> bool" where
  "live ok P body p ds \<longleftrightarrow>
     (ok \<longrightarrow> returns p) \<and> calls_in P p \<and> (\<forall>x cs. emits p x cs \<longrightarrow> emits body x (ds @ cs))"

lemma live_start: "(ok \<Longrightarrow> returns body) \<Longrightarrow> calls_in P body \<Longrightarrow> live ok P body body []"
  by (simp add: live_def)

lemma live_Ret: "live ok P body (Ret x) ds \<Longrightarrow> emits body x ds"
  by (auto simp: live_def emits_simps)

lemma live_Act:
  assumes "live ok P body (Act a) ds" and "a w = Some (w', q)"
  obtains cs where "hist w' = hist w @ cs" and "list_all P cs" and "live ok P body q (ds @ cs)"
proof -
  have "extends P w w'" and q: "calls_in P q"
    using assms unfolding live_def guar_Act_iff by blast+
  then obtain cs where cs: "hist w' = hist w @ cs" "list_all P cs" by (auto simp: extends_def)
  moreover have "ok \<longrightarrow> returns q"
    using assms unfolding live_def returns_simps by (metis option.inject prod.inject)
  moreover have "emits body x ((ds @ cs) @ es)" if "emits q x es" for x es
    using assms(1) emits_Act [of a w w' q cs x es] assms(2) cs(1) that by (simp add: live_def)
  ultimately show thesis using that q by (simp add: live_def)
qed

lemma live_enabled:
  assumes "live ok P body p ds" and ok
  shows "(\<exists>x. p = Ret x) \<or> (\<exists>a w' q. p = Act a \<and> a w = Some (w', q))"
  using assms by (cases p) (fastforce simp: live_def returns_simps)+

lemma live_Panic: "live ok P body (Panic e) ds \<Longrightarrow> \<not> ok"
  by (auto simp: live_def returns_simps)

subsection \<open>Classes of calls\<close>

fun is_request :: "call \<Rightarrow> bool" where
  "is_request (Exec CombinedOutput (c # d # args)) = (c = ''curl'' \<and> d = ''-sk'')"
| "is_request _ = False"

lemma is_request_call [simp]: "is_request (checkpoint_call ns name c)"
  by (simp add: checkpoint_call_def)

lemma upload_call_not_RemoveAll [simp]: "upload_call addr p \<noteq> RemoveAll d"
  by (simp add: upload_call_def)

lemma not_request_upload [simp]: "\<not> is_request (upload_call addr p)"
  by (simp add: upload_call_def upload_args_def)

abbreviation cleanup :: call where
  "cleanup \<equiv> RemoveAll checkpoints_dir"

definition checkpoint_phase :: "call \<Rightarrow> bool" where
  "checkpoint_phase c \<longleftrightarrow> is_request c \<or> c \<in> {cleanup, MkdirAll checkpoints_dir, Chown checkpoints_dir}"

definition deletion_phase :: "call \<Rightarrow> bool" where
  "deletion_phase c \<longleftrightarrow> \<not> is_request c \<and> \<not> is_upload c \<and> c \<noteq> cleanup"

definition upload_phase :: "call \<Rightarrow> bool" where
  "upload_phase c \<longleftrightarrow> \<not> is_request c \<and> c \<noteq> cleanup"

text \<open>\<open>never_after P Q h\<close>: no call in \<open>Q\<close> follows one in \<open>P\<close>.\<close>

fun never_after :: "('c \<Rightarrow> bool) \<Rightarrow> ('c \<Rightarrow> bool) \<Rightarrow> 'c list \<Rightarrow> bool" where
  "never_after P Q [] = True"
| "never_after P Q (c # cs) = ((P c \<longrightarrow> list_all (\<lambda>d. \<not> Q d) cs) \<and> never_after P Q cs)"

lemma never_after_append:
  "never_after P Q (xs @ ys) \<longleftrightarrow> never_after P Q xs \<and> never_after P Q ys \<and>
     (list_ex P xs \<longrightarrow> list_all (\<lambda>d. \<not> Q d) ys)"
  by (induction xs) auto

lemma never_after_none: "list_all (\<lambda>c. \<not> P c) xs \<Longrightarrow> never_after P Q xs"
  by (induction xs) auto

lemma never_after_no_later: "list_all (\<lambda>c. \<not> Q c) xs \<Longrightarrow> never_after P Q xs"
  by (induction xs) auto

subsection \<open>Environments in which the pipeline finishes\<close>

definition pipeline_env_ok :: "env \<Rightarrow> string \<Rightarrow> string \<Rightarrow> bool" where
  "pipeline_env_ok E ns name \<longleftrightarrow> deletion_seen E ns name \<and> (\<exists>addr. service_at E ns addr)"

lemma returns_bind_perform:
  "(\<And>h. returns (g (f h))) \<Longrightarrow> returns (bind_go (perform c f) g)"
  by (auto simp: perform_def step_def returns_simps)

lemma returns_deletion_loop: "Deleted \<in> set es \<or> ending = Closes \<Longrightarrow> returns (deletion_loop n es ending)"
  by (induction es) auto

lemma returns_Terminate:
  assumes "deletion_seen E ns name"
  shows "returns (TerminateCheckpointedPod E name ns)"
proof -
  have get: "\<exists>p e. podsGet E h ns name = (Some p, e)" for h
    using assms unfolding deletion_seen_def by (metis option.exhaust prod.collapse)
  have watch: "\<exists>w e. podsWatch E h ns (''metadata.name='' @ name) = (Some w, e) \<and>
      (Deleted \<in> set (w_events w) \<or> w_end w = Closes)" for h
    using assms unfolding deletion_seen_def by (metis prod.collapse)
  have wait: "returns (WaitForPodDeletion E name ns)"
    unfolding WaitForPodDeletion_def pods_Watch_def
  proof (rule returns_bind_perform, goal_cases)
    case (1 h)
    obtain w e where "podsWatch E h ns (''metadata.name='' @ name) = (Some w, e)"
      "Deleted \<in> set (w_events w) \<or> w_end w = Closes" using watch by blast
    then show ?case by (simp add: deref_def returns_deletion_loop)
  qed
  show ?thesis
    unfolding TerminateCheckpointedPod_def pods_Get_def
  proof (rule returns_bind_perform, goal_cases)
    case (1 h)
    obtain p e where "podsGet E h ns name = (Some p, e)" using get by blast
    then show ?case by (auto simp: deref_def intro!: go_returns wait)
  qed
qed

lemma returns_worker_body:
  assumes "service_at E ns addr"
  shows "returns (worker_body E ns path)"
proof -
  have "returns (GetDummyServiceIPAndPort E ns)"
    unfolding GetDummyServiceIPAndPort_def services_Get_def
  proof (rule returns_bind_perform, goal_cases)
    case (1 h)
    obtain svc n t ps where "fst (servicesGet E h ns ''dummy-service'') = Some svc"
      "svc_Ports svc = (n, snd addr, t) # ps"
      using assms unfolding service_at_def by blast
    then show ?case by (auto simp: deref_def index_def case_prod_beta)
  qed
  then show ?thesis
    unfolding worker_body_def MigrateCheckpointParallelized_def by (auto intro!: go_returns)
qed

lemma returns_stage1_body: "returns (stage1_body E containers ns name)"
  unfolding stage1_body_def by (auto intro!: go_returns)

lemma calls_in_stage1_body: "calls_in checkpoint_phase (stage1_body E containers ns name)"
  unfolding stage1_body_def by (intro go_calls) (auto simp: checkpoint_phase_def)

lemma calls_in_deletion: "calls_in deletion_phase (TerminateCheckpointedPod E name ns)"
  by (rule calls_in_TerminateCheckpointedPod) (simp_all add: deletion_phase_def)

lemma calls_in_worker_body: "calls_in upload_phase (worker_body E ns path)"
  unfolding worker_body_def by (intro go_calls) (auto simp: upload_phase_def intro!: go_calls)

section \<open>What the history says\<close>

text \<open>
  \<open>as\<close> are the calls of the checkpointing goroutine and \<open>bs\<close> all later ones. While that
  goroutine runs there are no others; afterwards each of the others has its calls in \<open>bs\<close>, in
  the order in which its code makes them.
\<close>

definition stage1_log :: "env \<Rightarrow> containerRef list \<Rightarrow> string \<Rightarrow> string \<Rightarrow> history \<Rightarrow> history \<Rightarrow> bool \<Rightarrow> stage1 \<Rightarrow> bool" where
  "stage1_log E containers ns name as bs received s1 =
     (case s1 of
        S1_Body p \<Rightarrow> live True checkpoint_phase (stage1_body E containers ns name) p as \<and> bs = []
      | S1_Send \<Rightarrow> emits (stage1_body E containers ns name) True as \<and> bs = []
      | _ \<Rightarrow> emits (stage1_body E containers ns name) received as)"

abbreviation received :: "pipeline \<Rightarrow> bool" where
  "received st \<equiv> loop_phase (p_main st) = 2 \<or> p_workers st \<noteq> []"

definition main_log :: "env \<Rightarrow> string \<Rightarrow> string \<Rightarrow> history \<Rightarrow> main \<Rightarrow> bool" where
  "main_log E ns name bs m =
     (case m of
        M_Terminate p \<Rightarrow>
          (\<exists>ds. live (pipeline_env_ok E ns name) deletion_phase (TerminateCheckpointedPod E name ns) p ds \<and> subseq ds bs)
      | M_Drain \<Rightarrow> subseq (deletion_calls name ns) bs
      | M_Clear \<Rightarrow> subseq (deletion_calls name ns) bs
      | M_Return r \<Rightarrow> subseq (deletion_calls name ns) bs \<and> r = None
      | _ \<Rightarrow> True)"

definition worker_log :: "env \<Rightarrow> string \<Rightarrow> string \<Rightarrow> history \<Rightarrow> worker \<Rightarrow> bool" where
  "worker_log E ns name bs w =
     (case w of
        W_Body p \<Rightarrow>
          (\<exists>ds. live (pipeline_env_ok E ns name) upload_phase (worker_body E ns checkpoints_dir) p ds \<and>
             subseq ds bs \<and> uploads bs = uploads ds)
      | _ \<Rightarrow> (\<exists>b ds. emits (worker_body E ns checkpoints_dir) b ds \<and> subseq ds bs \<and> uploads bs = uploads ds))"

abbreviation uploading :: "worker list \<Rightarrow> bool" where
  "uploading ws \<equiv> list_ex (\<lambda>w. \<exists>p. w = W_Body p) ws"

definition logged :: "env \<Rightarrow> containerRef list \<Rightarrow> string \<Rightarrow> string \<Rightarrow> history \<Rightarrow> history \<Rightarrow> pipeline \<Rightarrow> bool" where
  "logged E containers ns name as bs st \<longleftrightarrow>
     stage1_log E containers ns name as bs (received st) (p_stage1 st) \<and> main_log E ns name bs (p_main st) \<and>
     list_all (worker_log E ns name bs) (p_workers st) \<and>
     list_all checkpoint_phase as \<and> (p_workers st = [] \<longrightarrow> uploads bs = []) \<and>
     list_all (\<lambda>c. \<not> is_request c) bs \<and> never_after (\<lambda>c. c = cleanup) is_upload bs \<and>
     (p_main st = M_Clear \<or> cleanup \<in> set bs \<longrightarrow> \<not> uploading (p_workers st)) \<and>
     (0 < loop_phase (p_main st) \<longrightarrow> cleanup \<notin> set bs) \<and>
     (pipeline_env_ok E ns name \<longrightarrow> p_crash st = None)"

definition logs :: "env \<Rightarrow> containerRef list \<Rightarrow> string \<Rightarrow> string \<Rightarrow> history \<Rightarrow> pipeline \<Rightarrow> bool" where
  "logs E containers ns name h st \<longleftrightarrow>
     (\<exists>as bs. hist (p_world st) = h @ as @ bs \<and> logged E containers ns name as bs st)"

lemma logsI:
  "logged E containers ns name as bs st \<Longrightarrow> hist (p_world st) = h @ as @ bs \<Longrightarrow> logs E containers ns name h st"
  by (auto simp: logs_def)

lemma main_log_extend: "main_log E ns name bs m \<Longrightarrow> main_log E ns name (bs @ cs) m"
  by (auto simp: main_log_def split: main.splits intro: list_emb_prefix)

lemma worker_log_extend: "worker_log E ns name bs w \<Longrightarrow> uploads cs = [] \<Longrightarrow> worker_log E ns name (bs @ cs) w"
  by (fastforce simp: worker_log_def split: worker.splits intro: list_emb_prefix)

lemma workers_log_extend:
  "list_all (worker_log E ns name bs) ws \<Longrightarrow> uploads cs = [] \<Longrightarrow> list_all (worker_log E ns name (bs @ cs)) ws"
  by (auto simp: list_all_iff worker_log_extend)

lemma subseq_append_same: "subseq ds bs \<Longrightarrow> subseq (ds @ cs) (bs @ cs)"
  by (simp add: list_emb_append_mono)

lemma subseq_set: "subseq xs ys \<Longrightarrow> set xs \<subseteq> set ys"
  by (auto dest: list_emb_set)

lemma emits_deref: "emits (deref p) x cs \<longleftrightarrow> p = Some x \<and> cs = []"
  by (cases p) (auto simp: deref_def emits_simps)

lemma emits_log_name:
  "emits (if b then bind_go (deref p) (\<lambda>_. Ret ()) else Ret ()) x cs \<Longrightarrow> cs = []"
  by (auto simp: emits_bind emits_deref emits_simps split: if_splits)

lemma emits_deletion_loop: "emits (deletion_loop n es ending) x cs \<Longrightarrow> cs = []"
  by (induction es) (auto simp: emits_simps block_def split: if_splits watch_end.splits)

lemma emits_WaitForPodDeletion:
  "emits (WaitForPodDeletion E name ns) x cs \<Longrightarrow> cs = [PodsWatch ns (''metadata.name='' @ name)]"
  by (auto simp: WaitForPodDeletion_def pods_Watch_def emits_bind emits_deref case_prod_beta
      dest: emits_deletion_loop)

lemma emits_Terminate:
  assumes "emits (TerminateCheckpointedPod E name ns) r cs"
  shows "r = None \<and> cs = deletion_calls name ns"
  using assms unfolding TerminateCheckpointedPod_def pods_Get_def pods_Delete_def
  by (auto simp: emits_bind [of "perform _ _"] emits_bind [of "If _ _ _"] emits_bind [of "WaitForPodDeletion _ _ _"]
      emits_simps case_prod_beta deletion_calls_def simp del: not_None_eq
      dest!: emits_log_name emits_WaitForPodDeletion)

subsection \<open>Every step keeps it\<close>

lemma logs_start: "logs E containers ns name (hist w) (pipeline_start E containers ns name w)"
proof (rule logsI)
  have "live True checkpoint_phase (stage1_body E containers ns name) (stage1_body E containers ns name) []"
    by (rule live_start) (rule returns_stage1_body calls_in_stage1_body)+
  then show "logged E containers ns name [] [] (pipeline_start E containers ns name w)"
    by (simp add: logged_def stage1_log_def main_log_def pipeline_start_def)
qed (simp add: pipeline_start_def)

lemma logs_stage1_step:
  assumes "wiring st" and "stage1_step st = Some st'" and h: "hist (p_world st) = h @ as @ bs"
    and "logged E containers ns name as bs st"
  shows "logs E containers ns name h st'"
proof (cases "p_stage1 st")
  case (S1_Body p)
  have early: "p_main st = M_Range" "p_workers st = []" using assms(1) S1_Body by (simp_all add: wiring_def)
  have bs: "bs = []" and live: "live True checkpoint_phase (stage1_body E containers ns name) p as"
    using assms(4) S1_Body by (simp_all add: logged_def stage1_log_def)
  from assms(2) S1_Body have "code_step put_stage1 S1_Body p (\<lambda>b. if b then S1_Send else S1_Close) st = Some st'"
    by (simp add: stage1_step_def)
  then show ?thesis
  proof (cases rule: code_stepE)
    case (ret x)
    have "emits (stage1_body E containers ns name) x as" by (rule live_Ret) (use live ret(1) in simp)
    then have "logged E containers ns name as [] st'"
      using assms(4) ret(2) early bs
      by (cases x) (auto simp: logged_def stage1_log_def main_log_def put_stage1_def)
    then show ?thesis by (rule logsI) (use h ret(2) bs in \<open>simp add: put_stage1_def\<close>)
  next
    case (panic e)
    then show ?thesis using live live_Panic by blast
  next
    case (act a w q)
    obtain cs where cs: "hist w = hist (p_world st) @ cs" "list_all checkpoint_phase cs"
      "live True checkpoint_phase (stage1_body E containers ns name) q (as @ cs)"
      using live act(1,2) by (metis live_Act)
    then have "logged E containers ns name (as @ cs) [] st'"
      using assms(4) act(3) early bs by (auto simp: logged_def stage1_log_def main_log_def put_stage1_def)
    then show ?thesis by (rule logsI) (use h act(3) cs(1) bs in \<open>simp add: put_stage1_def\<close>)
  qed
next
  case S1_Send
  then have st': "p_main st = M_Range" "st' = st\<lparr>p_stage1 := S1_Close, p_main := M_Got checkpoints_dir\<rparr>"
    using assms(1,2) by (simp_all add: wiring_def stage1_step_def)
  have "logged E containers ns name as bs st'"
    using assms(4) S1_Send by (auto simp: st' logged_def stage1_log_def main_log_def)
  then show ?thesis by (rule logsI) (simp add: st' h)
next
  case S1_Close
  then have st': "st' = st\<lparr>p_stage1 := S1_End, p_checkpoints_closed := True\<rparr>"
    using assms(1,2) by (simp add: wiring_def stage1_step_def)
  have "logged E containers ns name as bs st'"
    using assms(4) S1_Close by (simp add: st' logged_def stage1_log_def)
  then show ?thesis by (rule logsI) (simp add: st' h)
qed (use assms(2) in \<open>simp add: stage1_step_def\<close>)

lemma logs_closer_step:
  assumes "wiring st" and "closer_step st = Some st'" and "hist (p_world st) = h @ as @ bs"
    and "logged E containers ns name as bs st"
  shows "logs E containers ns name h st'"
proof (rule logsI)
  have "p_stage1 st' = p_stage1 st \<and> p_main st' = p_main st \<and> p_workers st' = p_workers st \<and>
      p_world st' = p_world st \<and> (p_crash st = None \<longrightarrow> p_crash st' = None)"
    using assms(1,2) by (auto simp: wiring_def closer_step_def split: closer.splits if_splits)
  then show "logged E containers ns name as bs st'" and "hist (p_world st') = h @ as @ bs"
    using assms(3,4) by (simp_all add: logged_def)
qed

text \<open>After the first goroutine has finished, more calls leave its log as it is.\<close>

lemma stage1_log_extend:
  "stage1_log E containers ns name as bs r s1 \<Longrightarrow> s1 = S1_Close \<or> s1 = S1_End \<Longrightarrow>
     stage1_log E containers ns name as (bs @ cs) r s1"
  by (auto simp: stage1_log_def)

lemma not_request_phase: "list_all deletion_phase cs \<or> list_all upload_phase cs \<Longrightarrow> list_all (\<lambda>c. \<not> is_request c) cs"
  by (auto simp: list_all_iff deletion_phase_def upload_phase_def)

lemma logs_main_step:
  assumes "wiring st" and "main_step E ns name st = Some st'" and h: "hist (p_world st) = h @ as @ bs"
    and log: "logged E containers ns name as bs st" and "p_crash st = None"
  shows "logs E containers ns name h st'"
proof (cases "p_main st")
  case M_Range
  then have closed: "p_stage1 st = S1_End"
    and st': "st' = st\<lparr>p_main := M_Terminate (TerminateCheckpointedPod E name ns), p_closer := C_Wait\<rparr>"
    using assms(1,2) by (auto simp: main_step_def wiring_def split: if_splits)
  have "live (pipeline_env_ok E ns name) deletion_phase (TerminateCheckpointedPod E name ns)
      (TerminateCheckpointedPod E name ns) []"
    by (rule live_start) (auto simp: pipeline_env_ok_def intro: returns_Terminate calls_in_deletion)
  then have "main_log E ns name bs (M_Terminate (TerminateCheckpointedPod E name ns))"
    by (auto simp: main_log_def)
  then have "logged E containers ns name as bs st'"
    using log M_Range closed by (simp add: st' logged_def stage1_log_def)
  then show ?thesis by (rule logsI) (simp add: st' h)
next
  case (M_Got path)
  have path: "path = checkpoints_dir" and w: "p_workers st = []"
    using assms(1) M_Got by (simp_all add: wiring_def)
  have st': "st' = st\<lparr>p_main := M_Range, p_wg := p_wg st + 1, p_workers := [W_Body (worker_body E ns path)]\<rparr>"
    using assms(2) M_Got w by (simp add: main_step_def)
  have "live (pipeline_env_ok E ns name) upload_phase (worker_body E ns checkpoints_dir)
      (worker_body E ns checkpoints_dir) []"
    by (rule live_start) (auto simp: pipeline_env_ok_def intro: returns_worker_body calls_in_worker_body)
  moreover have "uploads bs = []" using log w by (simp add: logged_def)
  ultimately have "worker_log E ns name bs (W_Body (worker_body E ns path))"
    by (auto simp: worker_log_def path)
  moreover have "cleanup \<notin> set bs" using log M_Got by (simp add: logged_def)
  ultimately have "logged E containers ns name as bs st'"
    using log M_Got w by (simp add: st' logged_def main_log_def)
  then show ?thesis by (rule logsI) (simp add: st' h)
next
  case (M_Terminate p)
  have s1: "p_stage1 st = S1_End" using assms(1) M_Terminate by (simp add: wiring_def)
  obtain ds where live: "live (pipeline_env_ok E ns name) deletion_phase (TerminateCheckpointedPod E name ns) p ds"
    and ds: "subseq ds bs"
    using log M_Terminate by (auto simp: logged_def main_log_def)
  from assms(2) M_Terminate have
    "code_step put_main M_Terminate p (\<lambda>err. if err \<noteq> None then M_Return err else M_Drain) st = Some st'"
    by (simp add: main_step_def)
  then show ?thesis
  proof (cases rule: code_stepE)
    case (ret x)
    have "emits (TerminateCheckpointedPod E name ns :: (call, unit, goerr option) go) x ds" by (rule live_Ret) (use live ret(1) in simp)
    then have "x = None" and "ds = deletion_calls name ns" using emits_Terminate by blast+
    then have st': "st' = st\<lparr>p_main := M_Drain\<rparr>" and "main_log E ns name bs M_Drain"
      using ret(2) ds by (simp_all add: put_main_def main_log_def)
    then have "logged E containers ns name as bs st'"
      using log M_Terminate by (simp add: st' logged_def)
    then show ?thesis by (rule logsI) (simp add: st' h)
  next
    case (panic e)
    have "\<not> pipeline_env_ok E ns name" using live panic(1) live_Panic by blast
    then have "logged E containers ns name as bs st'" using log panic(2) by (simp add: logged_def)
    then show ?thesis by (rule logsI) (simp add: panic(2) h)
  next
    case (act a w q)
    obtain cs where cs: "hist w = hist (p_world st) @ cs" "list_all deletion_phase cs"
      and q: "live (pipeline_env_ok E ns name) deletion_phase (TerminateCheckpointedPod E name ns) q (ds @ cs)"
      using live act(1,2) by (metis live_Act)
    have st': "st' = st\<lparr>p_world := w, p_main := M_Terminate q\<rparr>" using act(3) by (simp add: put_main_def)
    have "main_log E ns name (bs @ cs) (M_Terminate q)"
      using q subseq_append_same [OF ds] by (auto simp: main_log_def)
    moreover have "cleanup \<notin> set cs" "list_all (\<lambda>c. \<not> is_upload c) cs" "list_all (\<lambda>c. \<not> is_request c) cs"
      "uploads cs = []"
      using cs(2) by (auto simp: list_all_iff deletion_phase_def filter_empty_conv)
    ultimately have "logged E containers ns name as (bs @ cs) st'"
      using log M_Terminate s1
      by (auto simp: st' logged_def never_after_append never_after_no_later stage1_log_def intro: workers_log_extend)
    then show ?thesis by (rule logsI) (simp add: st' h cs(1))
  qed
next
  case M_Drain
  then have st': "st' = st\<lparr>p_main := M_Return None\<rparr>" using assms(2) by (auto simp: main_step_def split: if_splits)
  then have "logged E containers ns name as bs st'"
    using log M_Drain by (simp add: logged_def main_log_def)
  then show ?thesis by (rule logsI) (simp add: st' h)
next
  case M_Clear
  let ?w = "p_world st\<lparr>hist := hist (p_world st) @ [cleanup]\<rparr>"
  have st': "st' = st\<lparr>p_main := M_Drain, p_world := ?w\<rparr>"
    using assms(2) M_Clear by (simp add: main_step_def file_op_def)
  have s1: "p_stage1 st = S1_End" using assms(1) M_Clear by (simp add: wiring_def)
  have "main_log E ns name (bs @ [cleanup]) M_Drain"
    using log M_Clear by (intro main_log_extend) (simp add: logged_def main_log_def)
  then have "logged E containers ns name as (bs @ [cleanup]) st'"
    using log M_Clear s1
    by (auto simp: st' logged_def never_after_append stage1_log_def intro: workers_log_extend)
  then show ?thesis by (rule logsI) (simp add: st' h)
qed (use assms(2) in \<open>simp add: main_step_def\<close>)

lemma logs_worker_step:
  assumes "wiring st" and "worker_step i st = Some st'" and h: "hist (p_world st) = h @ as @ bs"
    and log: "logged E containers ns name as bs st"
  shows "logs E containers ns name h st'"
proof -
  have i: "i < length (p_workers st)" using assms(2) by (auto simp: worker_step_def split: if_splits)
  have "i = 0" and ws: "p_workers st = [p_workers st ! 0]"
    using sole_worker [OF assms(1) i] by simp_all
  have s1: "p_stage1 st = S1_Close \<or> p_stage1 st = S1_End"
    using assms(1) i by (cases "p_stage1 st") (auto simp: wiring_def)
  from assms(2) show ?thesis
  proof (cases rule: worker_stepE)
    case (body p)
    with ws \<open>i = 0\<close> have w: "p_workers st = [W_Body p]" by simp
    obtain ds where live: "live (pipeline_env_ok E ns name) upload_phase (worker_body E ns checkpoints_dir) p ds"
      and ds: "subseq ds bs" and up: "uploads bs = uploads ds"
      using log w by (auto simp: logged_def worker_log_def)
    have clear: "p_main st \<noteq> M_Clear" "cleanup \<notin> set bs" using log w by (auto simp: logged_def)
    from body(3) show ?thesis
    proof (cases rule: code_stepE)
      case (ret x)
      let ?w = "if x then W_Send else W_Done"
      have st': "st' = st\<lparr>p_workers := [?w]\<rparr>" using ret(2) w \<open>i = 0\<close> by (simp add: put_worker_def)
      have "emits (worker_body E ns checkpoints_dir) x ds" by (rule live_Ret) (use live ret(1) in simp)
      then have "worker_log E ns name bs ?w" using ds up by (cases x) (auto simp: worker_log_def)
      then have "logged E containers ns name as bs st'"
        using log w clear by (simp add: st' logged_def)
      then show ?thesis by (rule logsI) (simp add: st' h)
    next
      case (panic e)
      have "\<not> pipeline_env_ok E ns name" using live panic(1) live_Panic by blast
      then have "logged E containers ns name as bs st'" using log panic(2) by (simp add: logged_def)
      then show ?thesis by (rule logsI) (simp add: panic(2) h)
    next
      case (act a v q)
      obtain cs where cs: "hist v = hist (p_world st) @ cs" "list_all upload_phase cs"
        and q: "live (pipeline_env_ok E ns name) upload_phase (worker_body E ns checkpoints_dir) q (ds @ cs)"
        using live act(1,2) by (metis live_Act)
      have st': "st' = st\<lparr>p_world := v, p_workers := [W_Body q]\<rparr>"
        using act(3) w \<open>i = 0\<close> by (simp add: put_worker_def)
      have "worker_log E ns name (bs @ cs) (W_Body q)"
        using q subseq_append_same [OF ds] up by (auto simp: worker_log_def intro!: exI [of _ "ds @ cs"])
      moreover have "cleanup \<notin> set cs" "list_all (\<lambda>c. c \<noteq> cleanup) (bs @ cs)" "list_all (\<lambda>c. \<not> is_request c) cs"
        using cs(2) clear by (auto simp: list_all_iff upload_phase_def)
      ultimately have "logged E containers ns name as (bs @ cs) st'"
        using log w s1 clear never_after_none [of "\<lambda>c. c = cleanup" "bs @ cs" is_upload]
        by (auto simp: st' logged_def intro: main_log_extend stage1_log_extend)
      then show ?thesis by (rule logsI) (simp add: st' h cs(1))
    qed
  next
    case send
    with ws \<open>i = 0\<close> have w: "p_workers st = [W_Send]" by simp
    have "\<not> p_migrated_closed st" using assms(1) w by (auto simp: wiring_def)
    with send(3) have st': "p_main st = M_Drain" "st' = st\<lparr>p_main := M_Clear, p_workers := [W_Done]\<rparr>"
      using w \<open>i = 0\<close> by (auto simp: put_worker_def)
    have "logged E containers ns name as bs st'"
      using log w st'(1) by (simp add: st'(2) logged_def main_log_def worker_log_def)
    then show ?thesis by (rule logsI) (simp add: st' h)
  next
    case finish
    with ws \<open>i = 0\<close> have w: "p_workers st = [W_Done]" by simp
    have "0 < p_wg st" using assms(1) w by (simp add: wiring_def)
    with finish(3) have st': "st' = st\<lparr>p_wg := p_wg st - 1, p_workers := [W_End]\<rparr>"
      using w \<open>i = 0\<close> by (auto simp: put_worker_def)
    have "logged E containers ns name as bs st'"
      using log w by (simp add: st' logged_def worker_log_def)
    then show ?thesis by (rule logsI) (simp add: st' h)
  qed
qed

lemma logs_step:
  assumes "wiring st" and "pipeline_step E ns name g st = Some st'" and "logs E containers ns name h st"
  shows "logs E containers ns name h st'"
proof -
  obtain as bs where log: "hist (p_world st) = h @ as @ bs" "logged E containers ns name as bs st"
    using assms(3) by (auto simp: logs_def)
  have crash: "p_crash st = None" using assms(2) by (simp add: pipeline_step_def split: if_splits)
  show ?thesis
  proof (cases g)
    case Stage1
    then show ?thesis
      using logs_stage1_step [OF assms(1) _ log] assms(2) crash by (simp add: pipeline_step_def)
  next
    case Main
    then show ?thesis
      using logs_main_step [OF assms(1) _ log crash] assms(2) crash by (simp add: pipeline_step_def)
  next
    case (Worker i)
    then show ?thesis
      using logs_worker_step [OF assms(1) _ log] assms(2) crash by (simp add: pipeline_step_def)
  next
    case Closer
    then show ?thesis
      using logs_closer_step [OF assms(1) _ log] assms(2) crash by (simp add: pipeline_step_def)
  qed
qed

interpretation pipe_log: inductive_invariant "\<lambda>st. st = pipeline_start E containers ns name w"
  "pipeline_trans E ns name" "\<lambda>st. wiring st \<and> logs E containers ns name (hist w) st"
  by unfold_locales (auto simp: wiring_start logs_start pipeline_trans_iff intro: wiring_step logs_step)

lemma reachable_logs:
  assumes "(pipeline_trans E ns name)\<^sup>*\<^sup>* (pipeline_start E containers ns name w) st"
  obtains as bs where "wiring st" and "hist (p_world st) = hist w @ as @ bs"
    and "logged E containers ns name as bs st"
proof -
  have "wiring (pipeline_start E containers ns name w) \<and>
      logs E containers ns name (hist w) (pipeline_start E containers ns name w)"
    by (simp only: wiring_start logs_start simp_thms)
  from pipe_log.invar_rtranclp [OF assms this] show thesis using that by (auto simp: logs_def)
qed

section \<open>Final states\<close>

lemma not_blocked:
  assumes "code_step put wrap p k st = None" and "live ok P body p ds" and ok
  shows Q
  using live_enabled [OF assms(2,3), of "p_world st"] assms(1) by (auto simp: code_step_def)

text \<open>A state in which no goroutine can move.\<close>

definition halted :: "env \<Rightarrow> string \<Rightarrow> string \<Rightarrow> pipeline \<Rightarrow> bool" where
  "halted E ns name st \<longleftrightarrow> (\<forall>g. pipeline_step E ns name g st = None)"

lemma haltedD:
  assumes "halted E ns name st" and "p_crash st = None"
  shows "stage1_step st = None" and "main_step E ns name st = None" and "worker_step i st = None"
    and "closer_step st = None"
  using assms(1) [unfolded halted_def, THEN spec, of Stage1] assms(1) [unfolded halted_def, THEN spec, of Main]
    assms(1) [unfolded halted_def, THEN spec, of "Worker i"] assms(1) [unfolded halted_def, THEN spec, of Closer]
    assms(2) by (simp_all add: pipeline_step_def)

lemma halted_stage1:
  assumes "stage1_step st = None" and "wiring st" and "logged E containers ns name as bs st"
  shows "p_stage1 st = S1_End"
proof (cases "p_stage1 st")
  case (S1_Body p)
  then have "code_step put_stage1 S1_Body p (\<lambda>b. if b then S1_Send else S1_Close) st = None"
    and "live True checkpoint_phase (stage1_body E containers ns name) p as"
    using assms(1,3) by (simp_all add: stage1_step_def logged_def stage1_log_def)
  then show ?thesis by (rule not_blocked) simp
qed (use assms in \<open>auto simp: stage1_step_def wiring_def\<close>)

lemma halted_main:
  assumes "main_step E ns name st = None" and "wiring st" and "logged E containers ns name as bs st"
    and ok: "pipeline_env_ok E ns name" and s1: "p_stage1 st = S1_End"
  shows "p_main st = M_Drain \<and> \<not> p_migrated_closed st \<or> p_main st = M_Return None \<and> p_closer st = C_End"
proof (cases "p_main st")
  case (M_Terminate p)
  then obtain ds where "live (pipeline_env_ok E ns name) deletion_phase (TerminateCheckpointedPod E name ns) p ds"
    using assms(3) by (auto simp: logged_def main_log_def)
  moreover have "code_step put_main M_Terminate p (\<lambda>err. if err \<noteq> None then M_Return err else M_Drain) st = None"
    using assms(1) M_Terminate by (simp add: main_step_def)
  ultimately show ?thesis using ok not_blocked by blast
next
  case (M_Return r)
  then have "r = None" using assms(3) by (simp add: logged_def main_log_def)
  with M_Return show ?thesis using assms(2) by (simp add: wiring_def)
qed (use assms in \<open>auto simp: main_step_def wiring_def split: if_splits\<close>)

lemma halted_workers:
  assumes "\<And>i. worker_step i st = None" and "wiring st" and "logged E containers ns name as bs st"
    and ok: "pipeline_env_ok E ns name" and "p_main st = M_Drain \<and> \<not> p_migrated_closed st \<or> p_closer st = C_End"
  shows "list_all (\<lambda>w. w = W_End) (p_workers st)"
proof (cases "p_workers st")
  case (Cons w ws)
  then have ws: "p_workers st = [w]" using sole_worker(2) [OF assms(2), of 0] by simp
  have none: "worker_step 0 st = None" by (rule assms(1))
  show ?thesis
  proof (cases w)
    case (W_Body p)
    then obtain ds where "live (pipeline_env_ok E ns name) upload_phase (worker_body E ns checkpoints_dir) p ds"
      using assms(3) ws by (auto simp: logged_def worker_log_def)
    moreover have "code_step (put_worker 0) W_Body p (\<lambda>b. if b then W_Send else W_Done) st = None"
      using none ws W_Body by (simp add: worker_step_def)
    ultimately show ?thesis using ok not_blocked by blast
  next
    case W_Send
    then show ?thesis using none ws assms(2,5) by (auto simp: worker_step_def wiring_def split: if_splits)
  next
    case W_Done
    then show ?thesis using none ws by (simp add: worker_step_def)
  qed (simp add: ws)
qed simp

lemma halted_finished:
  assumes "halted E ns name st" and "wiring st" and log: "logged E containers ns name as bs st"
    and ok: "pipeline_env_ok E ns name"
  shows "p_stage1 st = S1_End \<and> p_main st = M_Return None \<and> list_all (\<lambda>w. w = W_End) (p_workers st) \<and>
    p_closer st = C_End \<and> p_crash st = None"
proof -
  have crash: "p_crash st = None" using log ok by (simp add: logged_def)
  note none = haltedD [OF assms(1) crash]
  have s1: "p_stage1 st = S1_End" using none(1) assms(2) log by (rule halted_stage1)
  have m: "p_main st = M_Drain \<and> \<not> p_migrated_closed st \<or> p_main st = M_Return None \<and> p_closer st = C_End"
    using none(2) assms(2) log ok s1 by (rule halted_main)
  have w: "list_all (\<lambda>w. w = W_End) (p_workers st)"
    using none(3) assms(2) log ok by (rule halted_workers) (use m in blast)
  then have "p_wg st = 0" using assms(2) by (auto simp: wiring_def list_all_iff filter_empty_conv)
  then have "p_closer st = C_End"
    using none(4) m assms(2) by (cases "p_closer st") (auto simp: closer_step_def wiring_def)
  with s1 m w crash assms(2) show ?thesis by (auto simp: wiring_def)
qed

section \<open>The calls of each stage\<close>

lemma emits_read: "emits (step (\<lambda>s. s) f) x cs \<longleftrightarrow> cs = [] \<and> (\<exists>s. x = f s)"
  by (auto simp: step_def emits_simps)

lemma emits_wait_group:
  assumes "emits (wait_group E ts) () cs"
  shows "\<exists>css. list_all2 (\<lambda>t. emits t ()) ts css \<and> mset cs = sum_list (map mset css)"
proof -
  from assms obtain "is" where "emits (par is ts) () cs"
    by (auto simp: wait_group_def emits_bind emits_read)
  then show ?thesis by (rule emits_par)
qed

lemma emits_CheckpointPodPipelined:
  assumes "emits (CheckpointPodPipelined E containers ns name) r cs"
  shows "r = None \<and> mset cs = mset (requests ns name containers)"
proof -
  from assms have r: "r = None"
    and "\<exists>css. css = map (\<lambda>c. [checkpoint_call ns name (cr_Name c)]) containers \<and> mset cs = sum_list (map mset css)"
    by (auto simp: CheckpointPodPipelined_def emits_bind emits_simps list_all2_map1 list_all2_map_eq
        dest!: emits_wait_group)
  then obtain css where css: "css = map (\<lambda>c. [checkpoint_call ns name (cr_Name c)]) containers"
    "mset cs = sum_list (map mset css)" by blast
  then have "mset cs = mset (requests ns name containers)"
    unfolding css(1) sum_list_mset_singletons by simp
  with r show ?thesis by simp
qed

lemma emits_file_op: "emits (file_op E c) x cs \<longleftrightarrow> cs = [c] \<and> (\<exists>h. x = fileOp E h c)"
  by (simp add: file_op_def)

lemma emits_stage1_body:
  assumes "emits (stage1_body E containers ns name) b as"
  shows "as = [cleanup] \<and> \<not> b \<and> (\<exists>h. fileOp E h cleanup \<noteq> None) \<or>
    as = [cleanup, MkdirAll checkpoints_dir] \<and> \<not> b \<or>
    (\<exists>cs. as = [cleanup, MkdirAll checkpoints_dir] @ cs @ [Chown checkpoints_dir] \<and>
       mset cs = mset (requests ns name containers) \<and> (\<exists>h. fileOp E h cleanup = None))"
  using assms unfolding stage1_body_def
  by (auto simp: emits_bind emits_file_op emits_simps split: if_splits dest!: emits_CheckpointPodPipelined)
    (metis)+

lemma emits_stage1_ok:
  assumes "emits (stage1_body E containers ns name) b as" and "\<And>h c. fileOp E h c = None"
  shows "b \<and> (\<exists>cs. as = [cleanup, MkdirAll checkpoints_dir] @ cs @ [Chown checkpoints_dir] \<and>
    mset cs = mset (requests ns name containers))"
  using assms unfolding stage1_body_def
  by (auto simp: emits_bind emits_file_op emits_simps split: if_splits dest!: emits_CheckpointPodPipelined)

lemma emits_GetDummyServiceIPAndPort:
  assumes "emits (GetDummyServiceIPAndPort E ns) a cs" and "service_at E ns addr"
  shows "a = addr \<and> cs = [ServicesGet ns ''dummy-service'']"
proof -
  have s: "\<exists>svc n t ps. fst (servicesGet E h ns ''dummy-service'') = Some svc \<and>
      svc_ClusterIP svc = fst addr \<and> svc_Ports svc = (n, snd addr, t) # ps" for h
    using assms(2) by (simp add: service_at_def)
  from assms(1) obtain h svc ds where "fst (servicesGet E h ns ''dummy-service'') = Some svc"
    "cs = ServicesGet ns ''dummy-service'' # ds"
    "emits (bind_go (index (svc_Ports svc) 0) (\<lambda>(name, port, target). Ret (svc_ClusterIP svc, port)) :: (call, 'a, string \<times> 32 word) go) a ds"
    unfolding GetDummyServiceIPAndPort_def services_Get_def emits_bind [of "perform _ _"]
    by (auto simp: case_prod_unfold emits_bind [of "deref _"] emits_deref) (metis fst_conv)
  with s [of h] show ?thesis by (auto simp: index_def emits_simps prod_eq_iff)
qed

lemma emits_MigrateCheckpointParallelized:
  assumes "emits (MigrateCheckpointParallelized E files dir ns) r cs" and "service_at E ns addr" and "info_ok E"
  shows "\<exists>us. r = None \<and> cs = [ServicesGet ns ''dummy-service''] @ us @
      [Exec Output [''sudo'', ''touch'', dummy_file], upload_call addr dummy_file] \<and>
    mset us = mset (concat (map (file_calls dir addr) files))"
proof -
  from assms(1,2) obtain us where us: "emits (wait_group E (map (upload_worker E dir addr) files) :: (call, 'a, unit) go) () us"
    and cs: "r = None" "cs = [ServicesGet ns ''dummy-service''] @ us @
      [Exec Output [''sudo'', ''touch'', dummy_file], upload_call addr dummy_file]"
    unfolding MigrateCheckpointParallelized_def exec_cmd_def upload_call_def
    by (auto simp: emits_bind emits_simps dest!: emits_GetDummyServiceIPAndPort)
  from emits_wait_group [OF us] obtain css
    where css: "list_all2 (\<lambda>f. emits (upload_worker E dir addr f :: (call, 'a, unit) go) ()) files css"
      "mset us = sum_list (map mset css)"
    by (auto simp: list_all2_map1)
  from uploads_info_ok [OF assms(3) css(1)] css(2) have "mset us = mset (concat (map (file_calls dir addr) files))"
    by (simp only: sum_list_mset_concat)
  with cs show ?thesis by blast
qed

lemma emits_worker_body:
  assumes "emits (worker_body E ns dir) b ds" and "service_at E ns addr" and "info_ok E"
    and "\<And>h. readDir E h dir = (files, None)"
  shows "\<exists>us. b \<and> ds = [ReadDir dir, ServicesGet ns ''dummy-service''] @ us @
      [Exec Output [''sudo'', ''touch'', dummy_file], upload_call addr dummy_file] \<and>
    mset us = mset (concat (map (file_calls dir addr) files))"
proof -
  from assms(1,4) obtain r cs where "emits (MigrateCheckpointParallelized E files dir ns :: (call, unit, goerr option) go) r cs"
    and "ds = ReadDir dir # cs" and "b \<longleftrightarrow> r = None"
    unfolding worker_body_def read_dir_def by (auto simp: emits_bind emits_simps split: if_splits)
  then show ?thesis using emits_MigrateCheckpointParallelized [OF _ assms(2,3)] by fastforce
qed

section \<open>Executions that run to the end\<close>

lemma exists_halted: "\<exists>gs. halted E ns name (run_pipeline E ns name gs st)"
proof (induction st rule: wf_induct_rule [OF wf_pipeline_trans [of E ns name]])
  case (1 st)
  show ?case
  proof (cases "halted E ns name st")
    case True
    then show ?thesis by (intro exI [of _ "[]"]) simp
  next
    case False
    then obtain g st' where g: "pipeline_step E ns name g st = Some st'"
      unfolding halted_def by auto
    then have "pipeline_trans E ns name st st'" by (rule moves)
    with 1 obtain gs where "halted E ns name (run_pipeline E ns name gs st')" by auto
    with g show ?thesis by (intro exI [of _ "g # gs"]) simp
  qed
qed

text \<open>What \<open>MigratePodPipelined\<close> has done when all goroutines have ended.\<close>

lemma MigratePodPipelined_logs:
  assumes "MigratePodPipelined E lm ns gs w = Done st" and pl: "podsList E (hist w) ns = (Some ps, err)"
  obtains as bs where "wiring st" and "hist (p_world st) = hist w @ [PodsList ns] @ as @ bs"
    and "logged E (listed ps err) ns (om_Name (lm_Meta lm)) as bs st"
proof -
  let ?w = "w\<lparr>hist := hist w @ [PodsList ns]\<rparr>"
  let ?st = "pipeline_start E (listed ps err) ns (om_Name (lm_Meta lm)) ?w"
  obtain err' where "run (PrintContainerIDs E ns) w = (Done (listed ps err, err'), ?w)"
    using run_PrintContainerIDs_listed [OF pl] by blast
  then have "st = run_pipeline E ns (om_Name (lm_Meta lm)) gs ?st"
    using assms(1) by (simp add: MigratePodPipelined_def Let_def)
  then have "(pipeline_trans E ns (om_Name (lm_Meta lm)))\<^sup>*\<^sup>* ?st st" by (simp add: pipe_machine.run_reachable)
  then show thesis by (rule reachable_logs) (use that in simp)
qed

section \<open>Properties\<close>

text \<open>C4: the pipelined migration does not deadlock: when the outside answers (the deletion is seen and
  the dummy service has an address), an execution that cannot go on has returned nil, every
  goroutine it started has ended, and none has panicked. No channel is closed twice or sent on
  after its close.\<close>

theorem MigratePodPipelined_completes:
  assumes "MigratePodPipelined E lm ns gs w = Done st" and "podsList E (hist w) ns = (Some ps, err)"
    and "pipeline_env_ok E ns (om_Name (lm_Meta lm))" and "halted E ns (om_Name (lm_Meta lm)) st"
  shows "p_main st = M_Return None \<and> p_stage1 st = S1_End \<and> list_all (\<lambda>w. w = W_End) (p_workers st) \<and>
    p_closer st = C_End \<and> p_crash st = None"
proof -
  obtain as bs where "wiring st" and "logged E (listed ps err) ns (om_Name (lm_Meta lm)) as bs st"
    by (rule MigratePodPipelined_logs [OF assms(1,2)])
  with halted_finished [OF assms(4) _ _ assms(3)] show ?thesis by blast
qed

lemma sample_pipeline_ok: "pipeline_env_ok sample_upload_env ns name"
  unfolding pipeline_env_ok_def using sample_upload_env_ok(3) service_at_up [OF sample_upload_env_ok(1)] by blast

text \<open>After its list request, \<open>MigratePodPipelined\<close> is the machine.\<close>

lemma MigratePodPipelined_start:
  assumes "podsList E (hist w) ns = (Some ps, err)"
  obtains s where "\<And>gs. MigratePodPipelined E lm ns gs w = Done (run_pipeline E ns (om_Name (lm_Meta lm)) gs s)"
proof -
  obtain err' where "run (PrintContainerIDs E ns) w = (Done (listed ps err, err'), w\<lparr>hist := hist w @ [PodsList ns]\<rparr>)"
    using run_PrintContainerIDs_listed [OF assms] by blast
  then show thesis using that by (simp add: MigratePodPipelined_def Let_def)
qed

lemma MigratePodPipelined_can_halt:
  assumes "podsList E (hist w) ns = (Some ps, err)"
  obtains gs st where "MigratePodPipelined E lm ns gs w = Done st" and "halted E ns (om_Name (lm_Meta lm)) st"
proof (rule MigratePodPipelined_start [OF assms, of lm])
  fix s assume "\<And>gs. MigratePodPipelined E lm ns gs w = Done (run_pipeline E ns (om_Name (lm_Meta lm)) gs s)"
  then show thesis using that exists_halted [of E ns "om_Name (lm_Meta lm)"] by blast
qed

lemma MigratePodPipelined_snoc:
  assumes "MigratePodPipelined E lm ns gs w = Done st"
  shows "MigratePodPipelined E lm ns (gs @ [g]) w =
    Done (case pipeline_step E ns (om_Name (lm_Meta lm)) g st of None \<Rightarrow> st | Some st' \<Rightarrow> st')"
  using assms by (auto simp: MigratePodPipelined_def run_machine_append Let_def split: prod.splits outcome.splits)

theorem MigratePodPipelined_completes_witness:
  "\<exists>gs st. MigratePodPipelined sample_upload_env sample_migration ''test'' gs start = Done st \<and>
     p_main st = M_Return None \<and> p_crash st = None"
proof -
  have pl: "podsList sample_upload_env (hist start) ''test'' = (Some [], None)"
    by (simp add: sample_upload_env_def env0_def)
  obtain gs st where "MigratePodPipelined sample_upload_env sample_migration ''test'' gs start = Done st"
    and "halted sample_upload_env ''test'' (om_Name (lm_Meta sample_migration)) st"
    by (rule MigratePodPipelined_can_halt [OF pl])
  with MigratePodPipelined_completes [OF _ pl sample_pipeline_ok] show ?thesis by blast
qed

text \<open>C7: the pipelined migration terminates: when the outside answers (the dummy service has an
  address and the watch reports the deletion or ends), then under every weakly fair infinite schedule
  of its goroutines, one in which no goroutine that can move is passed over for ever,
  \<open>MigratePodPipelined\<close> comes to a state in which it has returned nil and everything it started has ended
  without a panic.\<close>

theorem MigratePodPipelined_returns:
  assumes "podsList E (hist w) ns = (Some ps, err)" and "pipeline_env_ok E ns (om_Name (lm_Meta lm))"
    and fair: "\<forall>g i. \<exists>j\<ge>i. \<sigma> j = g \<or> (\<exists>st. MigratePodPipelined E lm ns (map \<sigma> [0..<j]) w = Done st \<and>
        pipeline_step E ns (om_Name (lm_Meta lm)) g st = None)"
  shows "\<exists>n st. MigratePodPipelined E lm ns (map \<sigma> [0..<n]) w = Done st \<and> p_main st = M_Return None \<and>
    p_stage1 st = S1_End \<and> list_all (\<lambda>w. w = W_End) (p_workers st) \<and> p_closer st = C_End \<and> p_crash st = None"
proof -
  let ?name = "om_Name (lm_Meta lm)"
  obtain s where "\<And>gs. MigratePodPipelined E lm ns gs w = Done (run_pipeline E ns ?name gs s)"
    using MigratePodPipelined_start [OF assms(1), of lm] by blast
  then have s: "MigratePodPipelined E lm ns (map \<sigma> [0..<j]) w = Done (after_steps (pipeline_step E ns ?name) \<sigma> s j)" for j
    by (simp add: after_steps_def)
  then have "weakly_fair (pipeline_step E ns ?name) \<sigma> s"
    using fair unfolding weakly_fair_def by simp
  from pipe_machine.fair_halts [OF wf_pipeline_trans this] obtain n
    where halt: "halted E ns ?name (after_steps (pipeline_step E ns ?name) \<sigma> s n)" unfolding halted_def by blast
  obtain as bs where "wiring (after_steps (pipeline_step E ns ?name) \<sigma> s n)"
    and "logged E (listed ps err) ns ?name as bs (after_steps (pipeline_step E ns ?name) \<sigma> s n)"
    by (rule MigratePodPipelined_logs [OF s assms(1)])
  with halted_finished [OF halt _ _ assms(2)] s [of n] show ?thesis by blast
qed

theorem MigratePodPipelined_returns_witness:
  "\<exists>gs st. MigratePodPipelined sample_upload_env sample_migration ''test'' gs start = Done st \<and> p_main st = M_Return None"
proof -
  let ?M = "\<lambda>gs. MigratePodPipelined sample_upload_env sample_migration ''test'' gs start"
  have pl: "podsList sample_upload_env (hist start) ''test'' = (Some [], None)"
    by (simp add: sample_upload_env_def env0_def)
  obtain gs st where st: "?M gs = Done st" "halted sample_upload_env ''test'' (om_Name (lm_Meta sample_migration)) st"
    by (rule MigratePodPipelined_can_halt [OF pl])
  define \<sigma> where "\<sigma> i = (if i < length gs then gs ! i else Main)" for i
  have "?M (map \<sigma> [0..<length gs + i]) = Done st" for i
  proof (induction i)
    case 0
    have "map \<sigma> [0..<length gs] = gs" by (rule nth_equalityI) (simp_all add: \<sigma>_def)
    then show ?case using st by simp
  next
    case (Suc i)
    then show ?case using st(2) by (simp add: MigratePodPipelined_snoc halted_def)
  qed
  then have "\<forall>g i. \<exists>j\<ge>i. \<sigma> j = g \<or> (\<exists>st. ?M (map \<sigma> [0..<j]) = Done st \<and>
      pipeline_step sample_upload_env ''test'' (om_Name (lm_Meta sample_migration)) g st = None)"
    using st(2) unfolding halted_def by (metis le_add2)
  from MigratePodPipelined_returns [OF pl sample_pipeline_ok this] show ?thesis by blast
qed

text \<open>C5: the order of the pipelined migration, in every state of every execution in every
  environment: the calls are those of the checkpointing goroutine followed by calls among which
  there is no checkpoint request, so no container is checkpointed after the deletion of its pod
  was asked for; and once the folder is cleaned up no file is uploaded any more.\<close>

theorem MigratePodPipelined_order:
  assumes "MigratePodPipelined E lm ns gs w = Done st" and "podsList E (hist w) ns = (Some ps, err)"
  shows "\<exists>as bs. hist (p_world st) = hist w @ [PodsList ns] @ as @ bs \<and> list_all checkpoint_phase as \<and>
    list_all (\<lambda>c. \<not> is_request c) bs \<and> never_after (\<lambda>c. c = cleanup) is_upload bs"
proof (rule MigratePodPipelined_logs [OF assms])
  fix as bs
  assume "hist (p_world st) = hist w @ [PodsList ns] @ as @ bs"
    and "logged E (listed ps err) ns (om_Name (lm_Meta lm)) as bs st"
  then show ?thesis by (intro exI [of _ as] exI [of _ bs]) (simp add: logged_def)
qed

theorem MigratePodPipelined_order_witness:
  "\<exists>st as bs. MigratePodPipelined env0 sample_migration ''test'' [Stage1, Stage1, Main] start = Done st \<and>
     hist (p_world st) = [PodsList ''test''] @ as @ bs \<and> list_all (\<lambda>c. \<not> is_request c) bs"
proof -
  have pl: "podsList env0 (hist start) ''test'' = (Some [], None)" by (simp add: env0_def)
  obtain err' where "run (PrintContainerIDs env0 ''test'') start =
      (Done (listed [] None, err'), start\<lparr>hist := hist start @ [PodsList ''test'']\<rparr>)"
    using run_PrintContainerIDs_listed [OF pl] by blast
  then obtain st where "MigratePodPipelined env0 sample_migration ''test'' [Stage1, Stage1, Main] start = Done st"
    by (simp add: MigratePodPipelined_def Let_def)
  from this MigratePodPipelined_order [OF this pl] show ?thesis by auto
qed

lemma request_not_upload: "is_request c \<Longrightarrow> \<not> is_upload c"
  by (cases c rule: is_request.cases) auto

lemma uploads_of_files:
  assumes "mset us = mset (concat (map (file_calls dir addr) files))"
  shows "mset (uploads us) = mset (map (\<lambda>f. upload_call addr (path_join dir (entry_name f))) files)"
proof -
  have "mset (uploads us) = mset (uploads (concat (map (file_calls dir addr) files)))" using assms by (metis mset_filter)
  then show ?thesis by (simp add: uploads_file_calls)
qed

lemma MigratePodPipelined_calls:
  assumes "MigratePodPipelined E lm ns gs w = Done st" and "podsList E (hist w) ns = (Some ps, err)"
    and "deletion_seen E ns (om_Name (lm_Meta lm))" and "service_at E ns addr" and "info_ok E"
    and "\<And>h c. fileOp E h c = None" and "\<And>h. readDir E h checkpoints_dir = (files, None)"
    and "halted E ns (om_Name (lm_Meta lm)) st"
  shows "\<exists>rs bs us. hist (p_world st) = hist w @ [PodsList ns, cleanup, MkdirAll checkpoints_dir] @ rs @
      [Chown checkpoints_dir] @ bs \<and>
    mset rs = mset (requests ns (om_Name (lm_Meta lm)) (listed ps err)) \<and>
    subseq (deletion_calls (om_Name (lm_Meta lm)) ns) bs \<and>
    subseq ([ReadDir checkpoints_dir, ServicesGet ns ''dummy-service''] @ us @
      [Exec Output [''sudo'', ''touch'', dummy_file], upload_call addr dummy_file]) bs \<and>
    mset us = mset (concat (map (file_calls checkpoints_dir addr) files)) \<and>
    uploads (hist (p_world st)) = uploads (hist w) @ uploads us @ [upload_call addr dummy_file]"
proof -
  let ?name = "om_Name (lm_Meta lm)"
  obtain as bs where wired: "wiring st" and h: "hist (p_world st) = hist w @ [PodsList ns] @ as @ bs"
    and log: "logged E (listed ps err) ns ?name as bs st"
    by (rule MigratePodPipelined_logs [OF assms(1,2)])
  have ok: "pipeline_env_ok E ns ?name" unfolding pipeline_env_ok_def using assms(3,4) by blast
  have fin: "p_stage1 st = S1_End" "p_main st = M_Return None"
    using halted_finished [OF assms(8) wired log ok] by simp_all
  have stage1: "emits (stage1_body E (listed ps err) ns ?name) (p_workers st \<noteq> []) as"
    using log fin by (simp add: logged_def stage1_log_def)
  from emits_stage1_ok [OF this assms(6)] obtain rs where sent: "p_workers st \<noteq> []"
    and as: "as = [cleanup, MkdirAll checkpoints_dir] @ rs @ [Chown checkpoints_dir]"
    and rs: "mset rs = mset (requests ns ?name (listed ps err))"
    by blast
  obtain x where "p_workers st = [x]" using sole_worker(2) [OF wired, of 0] sent by auto
  then have "p_workers st = [W_End]" using halted_finished [OF assms(8) wired log ok] by simp
  then obtain b ds where ds: "emits (worker_body E ns checkpoints_dir) b ds" "subseq ds bs" "uploads bs = uploads ds"
    using log by (auto simp: logged_def worker_log_def)
  from emits_worker_body [OF ds(1) assms(4,5,7)] obtain us where
    us: "ds = [ReadDir checkpoints_dir, ServicesGet ns ''dummy-service''] @ us @
      [Exec Output [''sudo'', ''touch'', dummy_file], upload_call addr dummy_file]"
    and "mset us = mset (concat (map (file_calls checkpoints_dir addr) files))" by blast
  moreover have "subseq (deletion_calls ?name ns) bs"
    using log fin(2) by (simp add: logged_def main_log_def)
  moreover have "uploads (hist (p_world st)) = uploads (hist w) @ uploads us @ [upload_call addr dummy_file]"
  proof -
    have "list_all checkpoint_phase as" using log by (simp add: logged_def)
    then have "uploads as = []" by (auto simp: list_all_iff filter_empty_conv checkpoint_phase_def dest: request_not_upload)
    then show ?thesis using h ds(3) us by simp
  qed
  ultimately show ?thesis
    using h as rs ds(2) by (intro exI [of _ rs] exI [of _ bs] exI [of _ us]) simp
qed

text \<open>C6: what a completed pipelined migration has done, when the folder operations succeed and the
  folder's files can be listed: every listed container was checkpointed once, the source pod was
  deleted, every file was uploaded once and nothing else, and the marker after all files; it implements the sequential
  \<open>MigratePod\<close> with the deletion of the pod and the uploads side by side.\<close>

theorem MigratePodPipelined_refines:
  assumes "MigratePodPipelined E lm ns gs w = Done st" and "podsList E (hist w) ns = (Some ps, err)"
    and "deletion_seen E ns (om_Name (lm_Meta lm))" and "service_at E ns addr" and "info_ok E"
    and "\<And>h c. fileOp E h c = None" and "\<And>h. readDir E h checkpoints_dir = (files, None)"
    and "halted E ns (om_Name (lm_Meta lm)) st"
  shows "\<exists>rs bs us vs. hist (p_world st) = hist w @ [PodsList ns, cleanup, MkdirAll checkpoints_dir] @ rs @
      [Chown checkpoints_dir] @ bs \<and>
    mset rs = mset (requests ns (om_Name (lm_Meta lm)) (listed ps err)) \<and>
    subseq (deletion_calls (om_Name (lm_Meta lm)) ns) bs \<and>
    subseq ([ReadDir checkpoints_dir, ServicesGet ns ''dummy-service''] @ us @
      [Exec Output [''sudo'', ''touch'', dummy_file], upload_call addr dummy_file]) bs \<and>
    mset us = mset (concat (map (file_calls checkpoints_dir addr) files)) \<and>
    uploads (hist (p_world st)) = uploads (hist w) @ vs @ [upload_call addr dummy_file] \<and>
    mset vs = mset (map (\<lambda>f. upload_call addr (path_join checkpoints_dir (entry_name f))) files)"
proof -
  from MigratePodPipelined_calls [OF assms] obtain rs bs us where
    calls: "hist (p_world st) = hist w @ [PodsList ns, cleanup, MkdirAll checkpoints_dir] @ rs @ [Chown checkpoints_dir] @ bs"
      "mset rs = mset (requests ns (om_Name (lm_Meta lm)) (listed ps err))"
      "subseq (deletion_calls (om_Name (lm_Meta lm)) ns) bs"
      "subseq ([ReadDir checkpoints_dir, ServicesGet ns ''dummy-service''] @ us @
        [Exec Output [''sudo'', ''touch'', dummy_file], upload_call addr dummy_file]) bs"
    and us: "mset us = mset (concat (map (file_calls checkpoints_dir addr) files))"
    and up: "uploads (hist (p_world st)) = uploads (hist w) @ uploads us @ [upload_call addr dummy_file]"
    by (elim exE conjE)
  have "mset (uploads us) = mset (map (\<lambda>f. upload_call addr (path_join checkpoints_dir (entry_name f))) files)"
    by (rule uploads_of_files [OF us])
  with calls us up show ?thesis
    by (intro exI [of _ rs] exI [of _ bs] exI [of _ us] exI [of _ "uploads us"] conjI)
qed

theorem MigratePodPipelined_refines_witness:
  "\<exists>gs st. MigratePodPipelined sample_upload_env sample_migration ''test'' gs start = Done st \<and>
     PodsDelete ''test'' ''mig'' \<in> set (hist (p_world st)) \<and>
     upload_call (''10.0.0.7'', 80) dummy_file \<in> set (hist (p_world st))"
proof -
  have pl: "podsList sample_upload_env (hist start) ''test'' = (Some [], None)"
    and fo: "\<And>h c. fileOp sample_upload_env h c = None"
    and rd: "\<And>h. readDir sample_upload_env h checkpoints_dir = ([DirEntry ''a'', DirEntry ''b''], None)"
    by (simp_all add: sample_upload_env_def env0_def)
  obtain gs st where run: "MigratePodPipelined sample_upload_env sample_migration ''test'' gs start = Done st"
    and halt: "halted sample_upload_env ''test'' (om_Name (lm_Meta sample_migration)) st"
    by (rule MigratePodPipelined_can_halt [OF pl])
  have name: "om_Name (lm_Meta sample_migration) = ''mig''" by (simp add: sample_migration_def)
  from MigratePodPipelined_refines [OF run pl sample_upload_env_ok(3) service_at_up [OF sample_upload_env_ok(1)]
      sample_upload_env_ok(2) fo rd halt]
  obtain rs bs us vs where h: "hist (p_world st) = hist start @ [PodsList ''test'', cleanup, MkdirAll checkpoints_dir] @ rs @
      [Chown checkpoints_dir] @ bs"
    and d: "subseq (deletion_calls (om_Name (lm_Meta sample_migration)) ''test'') bs"
    and u: "subseq ([ReadDir checkpoints_dir, ServicesGet ''test'' ''dummy-service''] @ us @
      [Exec Output [''sudo'', ''touch'', dummy_file], upload_call (''10.0.0.7'', 80) dummy_file]) bs"
    by (elim exE conjE)
  have "PodsDelete ''test'' ''mig'' \<in> set bs" using subseq_set [OF d] by (simp add: deletion_calls_def name)
  moreover have "upload_call (''10.0.0.7'', 80) dummy_file \<in> set bs" using subseq_set [OF u] by simp
  ultimately show ?thesis using run h by (intro exI [of _ gs] exI [of _ st]) simp
qed

text \<open>C36: the pod is deleted although nothing was checkpointed: when the folder cannot be emptied the
  first goroutine gives up, yet a completed execution has asked for the deletion, has made no
  checkpoint request and returned nil.\<close>

theorem MigratePodPipelined_deletes_unsaved:
  assumes "MigratePodPipelined E lm ns gs w = Done st" and "podsList E (hist w) ns = (Some ps, err)"
    and "pipeline_env_ok E ns (om_Name (lm_Meta lm))" and "halted E ns (om_Name (lm_Meta lm)) st"
    and "\<And>h. fileOp E h cleanup \<noteq> None"
  shows "p_main st = M_Return None \<and> (\<exists>bs. hist (p_world st) = hist w @ [PodsList ns, cleanup] @ bs \<and>
    list_all (\<lambda>c. \<not> is_request c) bs \<and> PodsDelete ns (om_Name (lm_Meta lm)) \<in> set bs)"
proof -
  let ?name = "om_Name (lm_Meta lm)"
  obtain as bs where wired: "wiring st" and h: "hist (p_world st) = hist w @ [PodsList ns] @ as @ bs"
    and log: "logged E (listed ps err) ns ?name as bs st"
    by (rule MigratePodPipelined_logs [OF assms(1,2)])
  have fin: "p_stage1 st = S1_End" "p_main st = M_Return None"
    using halted_finished [OF assms(4) wired log assms(3)] by simp_all
  have "emits (stage1_body E (listed ps err) ns ?name) (p_workers st \<noteq> []) as"
    using log fin by (simp add: logged_def stage1_log_def)
  then have "as = [cleanup]"
    using assms(5) unfolding stage1_body_def
    by (auto simp: emits_bind emits_file_op emits_simps split: if_splits) (metis option.distinct(1))+
  moreover have "subseq (deletion_calls ?name ns) bs" using log fin(2) by (simp add: logged_def main_log_def)
  then have "PodsDelete ns ?name \<in> set bs" by (rule list_emb_set) (auto simp: deletion_calls_def)
  ultimately show ?thesis using log fin h by (intro conjI exI [of _ bs]) (simp_all add: logged_def)
qed

theorem MigratePodPipelined_deletes_unsaved_witness:
  "\<exists>gs st. MigratePodPipelined (sample_upload_env\<lparr>fileOp := \<lambda>h c. Some (ErrOther ''busy'')\<rparr>) sample_migration
      ''test'' gs start = Done st \<and> PodsDelete ''test'' ''mig'' \<in> set (hist (p_world st))"
proof -
  let ?E = "sample_upload_env\<lparr>fileOp := \<lambda>h c. Some (ErrOther ''busy'')\<rparr>"
  have pl: "podsList ?E (hist start) ''test'' = (Some [], None)"
    and fo: "\<And>h. fileOp ?E h cleanup \<noteq> None"
    by (simp_all add: sample_upload_env_def env0_def)
  have ok: "pipeline_env_ok ?E ''test'' ''mig''"
    using sample_pipeline_ok [of "''test''" "''mig''"]
    by (simp add: pipeline_env_ok_def deletion_seen_def service_at_def)
  have name: "om_Name (lm_Meta sample_migration) = ''mig''" by (simp add: sample_migration_def)
  obtain gs st where run: "MigratePodPipelined ?E sample_migration ''test'' gs start = Done st"
    and halt: "halted ?E ''test'' (om_Name (lm_Meta sample_migration)) st"
    by (rule MigratePodPipelined_can_halt [OF pl])
  from MigratePodPipelined_deletes_unsaved [OF run pl _ halt fo] ok name run
  show ?thesis by (auto intro!: exI [of _ gs] exI [of _ st])
qed

end
