(* ===== verification/Restore.thy ===== *)
theory Restore
  imports Migrate
begin

text \<open>
  The receiving side: \<open>processFile\<close> of \<open>controllers/livemigration.go\<close>, which turns an
  archive into a container image with buildah, and the three restore routines of
  \<open>controllers/restore.go\<close>. \<open>BuildahRestoreParallelized\<close> shares two variables between
  its goroutines; they are fields of the state.
\<close>

section \<open>Definitions\<close>

text \<open>
  A send on the channel \<open>results\<close> of \<open>processFile\<close>, which has a buffer of two and no
  receiver: \<open>n\<close> is the number of values in the buffer.
\<close>

definition send_result :: "nat \<Rightarrow> ('s, nat) prog" where
  "send_result n = (if n < 2 then Ret (Suc n) else block)"

definition send_if :: "bool \<Rightarrow> nat \<Rightarrow> ('s, nat) prog" where
  "send_if failed n = (if failed then send_result n else Ret n)"

definition image_of :: "string \<Rightarrow> string" where
  "image_of containerName = ''leonardopoggiani/checkpoint-images:'' @ containerName"

definition restored_container :: "string \<Rightarrow> container" where
  "restored_container containerName =
     container0\<lparr>c_Name := containerName, c_Image := ''localhost/'' @ image_of containerName\<rparr>"

definition checkpoint_annotation :: "string \<Rightarrow> string" where
  "checkpoint_annotation containerName =
     ''--annotation=io.kubernetes.cri-o.annotations.checkpoint.name='' @ containerName"

definition from_args :: "string list" where
  "from_args = [''sudo'', ''buildah'', ''from'', ''scratch'']"

definition add_args :: "string \<Rightarrow> string \<Rightarrow> string list" where
  "add_args newContainer checkpointPath = [''sudo'', ''buildah'', ''add'', newContainer, checkpointPath, ''/'']"

definition config_args :: "string \<Rightarrow> string \<Rightarrow> string list" where
  "config_args containerName newContainer =
     [''sudo'', ''buildah'', ''config'', checkpoint_annotation containerName, newContainer]"

definition commit_args :: "string \<Rightarrow> string \<Rightarrow> string list" where
  "commit_args newContainer containerName =
     [''sudo'', ''buildah'', ''commit'', newContainer, image_of containerName]"

definition rm_args :: "string \<Rightarrow> string list" where
  "rm_args newContainer = [''sudo'', ''buildah'', ''rm'', newContainer]"

definition processFile :: "env \<Rightarrow> dir_entry \<Rightarrow> string \<Rightarrow> (call, 'm, container list \<times> string \<times> goerr option) go" where
  "processFile E file path =
     (if entry_name file = ''dummy'' then Ret ([], ''dummy'', None)
      else
        let checkpointPath = path_join path (entry_name file) in
        bind_go (RetrieveContainerName checkpointPath) (\<lambda>containerName.
        let podName = RetrievePodName checkpointPath in
        bind_go (file_op E (Chmod checkpointPath 420)) (\<lambda>err.
          if err \<noteq> None then Ret ([], [], err)
          else
            bind_go (exec_cmd E Output from_args) (\<lambda>(newContainerOutput, err).
            bind_go (send_if (err \<noteq> None) 0) (\<lambda>n.
            let newContainer = trim_right_newlines newContainerOutput in
            bind_go (exec_cmd E CombinedOutput (add_args newContainer checkpointPath)) (\<lambda>(_, err).
            bind_go (send_if (err \<noteq> None) n) (\<lambda>n.
            bind_go (exec_cmd E CombinedOutput (config_args containerName newContainer)) (\<lambda>(_, err).
            bind_go (send_if (err \<noteq> None) n) (\<lambda>n.
            bind_go (exec_cmd E CombinedOutput (commit_args newContainer containerName)) (\<lambda>(_, err).
            bind_go (send_if (err \<noteq> None) n) (\<lambda>n.
            bind_go (exec_cmd E CombinedOutput (rm_args newContainer)) (\<lambda>_.
            bind_go (send_result n) (\<lambda>_.
              Ret ([restored_container containerName], podName, None))))))))))))))"

definition getFiles :: "env \<Rightarrow> string \<Rightarrow> (call, 'm, dir_entry list) go" where
  "getFiles E path = bind_go (read_dir E path) (\<lambda>(files, err). Ret files)"

definition restored_pod :: "string \<Rightarrow> string \<Rightarrow> container list \<Rightarrow> pod" where
  "restored_pod podName ns containers = \<lparr>
     pod_Meta = meta0\<lparr>om_Name := podName, om_Namespace := ns, om_Labels := Some [''app'' \<mapsto> ''test'']\<rparr>,
     pod_Spec = podSpec0\<lparr>ps_Containers := containers, ps_ShareProcessNamespace := Some True\<rparr>,
     pod_Status = podStatus0\<rparr>"

text \<open>The loop of \<open>BuildahRestore\<close>: \<open>Inl err\<close> is its \<open>return nil, err\<close>.\<close>

fun restore_loop :: "env \<Rightarrow> string \<Rightarrow> dir_entry list \<Rightarrow> container list \<times> string \<Rightarrow> (call, 'm, goerr + container list \<times> string) go" where
  "restore_loop E path [] acc = Ret (Inr acc)"
| "restore_loop E path (file # files) (containersList, podName) =
     (if entry_name file = ''dummy'' then Ret (Inr (containersList, podName))
      else
        let checkpointPath = path_join path (entry_name file) in
        bind_go (file_op E (Chmod checkpointPath 511)) (\<lambda>err. case err of Some e \<Rightarrow> Ret (Inl e) | None \<Rightarrow>
        bind_go (exec_cmd E Output from_args) (\<lambda>(newContainerOutput, err). case err of Some e \<Rightarrow> Ret (Inl e) | None \<Rightarrow>
        let newContainer = trim_right_newlines newContainerOutput in
        bind_go (exec_cmd E CombinedOutput (add_args newContainer checkpointPath)) (\<lambda>(_, err). case err of Some e \<Rightarrow> Ret (Inl e) | None \<Rightarrow>
        bind_go (RetrieveContainerName checkpointPath) (\<lambda>containerName.
        let match = find_checkpoint_match checkpointPath in
        bind_go (exec_cmd E CombinedOutput (config_args containerName newContainer)) (\<lambda>(_, err). case err of Some e \<Rightarrow> Ret (Inl e) | None \<Rightarrow>
        bind_go (exec_cmd E CombinedOutput (commit_args newContainer containerName)) (\<lambda>_.
        case match of None \<Rightarrow> Panic IndexOutOfRange | Some g \<Rightarrow>
        bind_go (exec_cmd E CombinedOutput (rm_args newContainer)) (\<lambda>_.
          restore_loop E path files (containersList @ [restored_container containerName], g)))))))))"

definition BuildahRestore :: "env \<Rightarrow> string \<Rightarrow> string \<Rightarrow> (call, 'm, pod option \<times> goerr option) go" where
  "BuildahRestore E path ns =
     bind_go (read_dir E path) (\<lambda>(files, _).
     bind_go (restore_loop E path files ([], [])) (\<lambda>r.
       case r of
         Inl err \<Rightarrow> Ret (None, Some err)
       | Inr (containersList, podName) \<Rightarrow>
           bind_go (pods_Create E ns (restored_pod podName ns containersList)) (\<lambda>(pod, _).
             Ret (pod, None))))"

text \<open>The shared variables of \<open>BuildahRestoreParallelized\<close>.\<close>

record restore_vars = "call world" +
  rv_containersList :: "container list"
  rv_podName :: string

text \<open>
  Its goroutine: the result of \<open>processFile\<close> overwrites the shared \<open>podName\<close>; appending to
  \<open>containersList\<close> reads the variable and writes it back, two steps of which other goroutines
  may come in between.
\<close>

definition restore_worker :: "env \<Rightarrow> string \<Rightarrow> dir_entry \<Rightarrow> (restore_vars, unit) prog" where
  "restore_worker E path file =
     bind_go (processFile E file path) (\<lambda>(tmpList, name, err).
     bind_go (step (\<lambda>s. s\<lparr>rv_podName := name\<rparr>) (\<lambda>_. ())) (\<lambda>_.
     bind_go (step (\<lambda>s. s) rv_containersList) (\<lambda>old.
       step (\<lambda>s. s\<lparr>rv_containersList := old @ tmpList\<rparr>) (\<lambda>_. ()))))"

definition BuildahRestoreParallelized :: "env \<Rightarrow> string \<Rightarrow> string \<Rightarrow> (restore_vars, pod option \<times> goerr option) prog" where
  "BuildahRestoreParallelized E path ns =
     bind_go (getFiles E path) (\<lambda>files.
     bind_go (wait_group E (map (restore_worker E path) files)) (\<lambda>_.
     bind_go (read_dir E path) (\<lambda>_.
     bind_go (step (\<lambda>s. s) (\<lambda>s. restored_pod (rv_podName s) ns (rv_containersList s))) (\<lambda>pod.
     bind_go (pods_Create E ns pod) (\<lambda>(pod, _).
       Ret (pod, None))))))"

text \<open>The loop of \<open>BuildahRestorePipelined\<close>: the containers of each file go to a shadowing variable.\<close>

primrec process_loop :: "env \<Rightarrow> string \<Rightarrow> dir_entry list \<Rightarrow> (call, 'm, goerr option) go" where
  "process_loop E path [] = Ret None"
| "process_loop E path (file # files) =
     bind_go (processFile E file path) (\<lambda>(containers, out, err).
       if err \<noteq> None then Ret err else process_loop E path files)"

definition BuildahRestorePipelined :: "env \<Rightarrow> string \<Rightarrow> string \<Rightarrow> (call, 'm, pod option \<times> goerr option) go" where
  "BuildahRestorePipelined E path ns =
     bind_go (getFiles E path) (\<lambda>files.
     bind_go (index files 0) (\<lambda>first.
     let podName = RetrievePodName (entry_name first) in
     if podName = [] then Ret (None, Some (ErrOther ''failed to retrieve pod name''))
     else
       bind_go (process_loop E path files) (\<lambda>err.
         if err \<noteq> None then Ret (None, err)
         else
           let containers = []; pod = restored_pod podName ns containers in
           bind_go (pods_Create E ns pod) (\<lambda>(created, err).
             if err \<noteq> None then bind_go (deref created) (\<lambda>_. Ret (None, err))
             else Ret (Some pod, None)))))"

section \<open>Turning an archive into an image\<close>

text \<open>The commands that a run of \<open>processFile\<close> issues after the history \<open>h\<close>, in order.\<close>

definition buildah_calls :: "env \<Rightarrow> history \<Rightarrow> string \<Rightarrow> string \<Rightarrow> history" where
  "buildah_calls E h path name =
     (let c = trim_right_newlines (fst (execCmd E h Output from_args)) in
      [Exec Output from_args, Exec CombinedOutput (add_args c path),
       Exec CombinedOutput (config_args name c), Exec CombinedOutput (commit_args c name),
       Exec CombinedOutput (rm_args c)])"

definition fails :: "env \<Rightarrow> history \<Rightarrow> call \<Rightarrow> bool" where
  "fails E h c = (case c of Exec m args \<Rightarrow> snd (execCmd E h m args) \<noteq> None | _ \<Rightarrow> False)"

text \<open>How many of the first four commands (all but the final \<open>rm\<close>) fail.\<close>

definition failures :: "env \<Rightarrow> history \<Rightarrow> string \<Rightarrow> string \<Rightarrow> nat" where
  "failures E h path name =
     (let cs = buildah_calls E h path name in
      length (filter (\<lambda>i. fails E (h @ take i cs) (cs ! i)) [0, 1, 2, 3]))"

lemma run_send_if [go_run]:
  "run (send_if b n) s = (if b then if n < 2 then (Done (Suc n), s) else (Stuck, s) else (Done n, s))"
  by (simp add: send_if_def send_result_def)

lemma run_send_result [go_run]:
  "run (send_result n) s = (if n < 2 then (Done (Suc n), s) else (Stuck, s))"
  by (simp add: send_result_def)

lemma run_processFile:
  assumes "entry_name f \<noteq> ''dummy''" and p: "p = path_join path (entry_name f)"
    and "run (RetrieveContainerName p) s = (Done name, s)"
    and "fileOp E (hist s) (Chmod p 420) = None"
    and h: "h = hist s @ [Chmod p 420]"
  shows "failures E h p name < 2 \<Longrightarrow> run (processFile E f path) s =
      (Done ([restored_container name], RetrievePodName p, None),
       s\<lparr>hist := h @ buildah_calls E h p name\<rparr>)"
    and "2 \<le> failures E h p name \<Longrightarrow> fst (run (processFile E f path) s) = Stuck"
proof -
  define c where "c = trim_right_newlines (fst (execCmd E (hist s @ [Chmod p 420]) Output from_args))"
  let ?h = "\<lambda>cs. hist s @ Chmod p 420 # cs"
  let ?c0 = "Exec Output from_args" and ?c1 = "Exec CombinedOutput (add_args c p)"
    and ?c2 = "Exec CombinedOutput (config_args name c)"
  obtain b0 b1 b2 b3 where
    b: "(snd (execCmd E (?h []) Output from_args) = None) = (\<not> b0)"
      "(snd (execCmd E (?h [?c0]) CombinedOutput (add_args c p)) = None) = (\<not> b1)"
      "(snd (execCmd E (?h [?c0, ?c1]) CombinedOutput (config_args name c)) = None) = (\<not> b2)"
      "(snd (execCmd E (?h [?c0, ?c1, ?c2]) CombinedOutput (commit_args c name)) = None) = (\<not> b3)"
    by metis
  have f: "failures E h p name = of_bool b0 + of_bool b1 + of_bool b2 + of_bool b3"
    by (simp add: failures_def buildah_calls_def fails_def h c_def [symmetric] b Let_def
        del: not_None_eq)
  have "run (processFile E f path) s =
      (if 2 \<le> of_bool b0 + of_bool b1 + of_bool b2 + (of_bool b3 :: nat)
       then (Stuck, snd (run (processFile E f path) s))
       else (Done ([restored_container name], RetrievePodName p, None),
             s\<lparr>hist := h @ buildah_calls E h p name\<rparr>))"
    using assms(1,3,4)
    by (cases b0; cases b1; cases b2; cases b3)
      (simp_all add: processFile_def Let_def exec_cmd_def file_op_def case_prod_beta b
        run_send_if run_send_result buildah_calls_def p [symmetric] h c_def [symmetric]
        del: not_None_eq)
  with f show "failures E h p name < 2 \<Longrightarrow> run (processFile E f path) s =
      (Done ([restored_container name], RetrievePodName p, None),
       s\<lparr>hist := h @ buildah_calls E h p name\<rparr>)"
    and "2 \<le> failures E h p name \<Longrightarrow> fst (run (processFile E f path) s) = Stuck"
    by (simp_all split: if_splits) (metis fst_conv)+
qed

section \<open>Restoring kubelet archives\<close>

text \<open>Archives that lie in the directory \<open>/checkpoints/\<close> under the name the kubelet gave them.\<close>

definition stored_archive :: "checkpoint_id \<Rightarrow> bool" where
  "stored_archive k \<longleftrightarrow> one_dash_archive k \<and> CHR ''/'' \<notin> set (kubelet_file k)"

abbreviation archive_entry :: "checkpoint_id \<Rightarrow> dir_entry" where
  "archive_entry k \<equiv> DirEntry (kubelet_file k)"

lemma path_join_checkpoints: "plain_name n \<Longrightarrow> path_join ''/checkpoints/'' n = ''/checkpoints/'' @ n"
proof -
  assume n: "plain_name n"
  have "split (''/checkpoints//'' @ n) ''/'' = split ([] @ CHR ''/'' # ''checkpoints'' @ CHR ''/'' # [] @ CHR ''/'' # n) ''/''"
    by simp
  also have "\<dots> = [[], ''checkpoints'', [], n]"
    using n by (simp only: split_char_app) (simp add: split_char_single plain_name_def)
  finally show ?thesis
    using n by (simp add: path_join_def path_clean_def plain_name_def)
qed

lemma kubelet_file_plain: "CHR ''/'' \<notin> set (kubelet_file k) \<Longrightarrow> plain_name (kubelet_file k)"
  by (simp add: plain_name_def kubelet_file_def)

lemma kubelet_file_not_dummy: "kubelet_file k \<noteq> ''dummy''"
  by (simp add: kubelet_file_def)

lemma stored_archive_path:
  "stored_archive k \<Longrightarrow> path_join ''/checkpoints/'' (kubelet_file k) = ''/checkpoints/'' @ kubelet_file k"
  by (simp add: stored_archive_def path_join_checkpoints kubelet_file_plain)

lemma stored_archive_match:
  assumes "stored_archive k"
  shows "find_checkpoint_match (''/checkpoints/'' @ kubelet_file k) = Some (ck_Pod k)"
proof -
  have "RetrievePodName (''/checkpoints/'' @ kubelet_file k) = ck_Pod k" and "ck_Pod k \<noteq> []"
    using assms kubelet.read_pod_file [of k]
    by (simp_all add: stored_archive_def one_dash_archive_def ordinary_pod_def)
  then show ?thesis
    by (auto simp: RetrievePodName_def split: option.splits)
qed

text \<open>Every command and every file operation succeeds.\<close>

definition commands_ok :: "env \<Rightarrow> bool" where
  "commands_ok E \<longleftrightarrow> (\<forall>h m args. snd (execCmd E h m args) = None) \<and> (\<forall>h c. fileOp E h c = None)"

lemma exec_ok: "commands_ok E \<Longrightarrow> execCmd E h m args = (fst (execCmd E h m args), None)"
  by (simp add: commands_ok_def prod_eq_iff)

lemma restore_loop_step:
  assumes "commands_ok E" and "entry_name f \<noteq> ''dummy''" and p: "path_join path (entry_name f) = p"
    and "\<And>s :: (call, 'm) world_scheme. run (RetrieveContainerName p) s = (Done name, s)"
    and "find_checkpoint_match p = Some g"
  shows "run (restore_loop E path (f # fs) (cl, pn)) (s :: (call, 'm) world_scheme) =
    run (restore_loop E path fs (cl @ [restored_container name], g))
      (s\<lparr>hist := hist s @ Chmod p 511 # buildah_calls E (hist s @ [Chmod p 511]) p name\<rparr>)"
  using assms(1,2,4,5)
  by (simp add: p Let_def file_op_def exec_cmd_def case_prod_beta buildah_calls_def commands_ok_def)

lemma restore_loop_archives:
  assumes "commands_ok E" and "list_all stored_archive ks"
  shows "\<exists>s'. run (restore_loop E ''/checkpoints/'' (map archive_entry ks @ DirEntry ''dummy'' # rest) (cl, pn)) s =
    (Done (Inr (cl @ map (\<lambda>k. restored_container (ck_Container k)) ks, if ks = [] then pn else ck_Pod (last ks))), s')"
  using assms(2)
proof (induction ks arbitrary: cl pn s)
  case (Cons k ks)
  then have k: "stored_archive k" by simp
  then have "run (RetrieveContainerName (''/checkpoints/'' @ kubelet_file k)) s = (Done (ck_Container k), s)" for s :: "(call, 'a) world_scheme"
    by (intro RetrieveContainerName_one_dash) (simp add: stored_archive_def)
  then obtain s1 where "run (restore_loop E ''/checkpoints/'' (archive_entry k # fs) (cl, pn)) s =
      run (restore_loop E ''/checkpoints/'' fs (cl @ [restored_container (ck_Container k)], ck_Pod k)) s1" for fs
    using restore_loop_step [OF assms(1) _ _ _ stored_archive_match [OF k], of "archive_entry k"]
      stored_archive_path [OF k] kubelet_file_not_dummy [of k] by (metis dir_entry.sel)
  with Cons.IH [of "cl @ [restored_container (ck_Container k)]" "ck_Pod k" s1] Cons.prems
  show ?case by (auto simp del: restore_loop.simps)
qed simp

lemma run_BuildahRestore:
  assumes "commands_ok E" and "list_all stored_archive ks"
    and "readDir E (hist s) ''/checkpoints/'' = (map archive_entry ks @ DirEntry ''dummy'' # rest, err)"
  shows "\<exists>created s' h. run (BuildahRestore E ''/checkpoints/'' ns) s = (Done (created, None), s') \<and>
    hist s' = h @ [PodsCreate ns (restored_pod (if ks = [] then [] else ck_Pod (last ks)) ns
      (map (\<lambda>k. restored_container (ck_Container k)) ks))]"
proof -
  from restore_loop_archives [OF assms(1,2), of rest "[]" "[]" "s\<lparr>hist := hist s @ [ReadDir ''/checkpoints/'']\<rparr>"]
  obtain s' where "run (restore_loop E ''/checkpoints/'' (map archive_entry ks @ DirEntry ''dummy'' # rest) ([], []))
      (s\<lparr>hist := hist s @ [ReadDir ''/checkpoints/'']\<rparr>) =
    (Done (Inr (map (\<lambda>k. restored_container (ck_Container k)) ks, if ks = [] then [] else ck_Pod (last ks))), s')"
    by auto
  with assms(3) show ?thesis
    by (auto simp: BuildahRestore_def read_dir_def pods_Create_def case_prod_beta simp del: restore_loop.simps)
qed

text \<open>In a directory listed in name order, the entries before the marker are the smaller ones.\<close>

lemma takeWhile_below:
  assumes "sorted files" and "m \<in> set files"
  shows "takeWhile (\<lambda>f. f \<noteq> m) files = filter (\<lambda>f. f < m) files"
  using assms
proof (induction files)
  case (Cons f fs)
  show ?case
  proof (cases "f = m")
    case True
    then have "filter (\<lambda>g. g < m) fs = []" using Cons.prems by (auto simp: filter_empty_conv)
    with True show ?thesis by simp
  next
    case False
    then have "f < m" using Cons.prems by force
    with False Cons show ?thesis by simp
  qed
qed simp

lemma restore_loop_takeWhile:
  "restore_loop E path files acc = restore_loop E path (takeWhile (\<lambda>f. f \<noteq> DirEntry ''dummy'') files) acc"
proof (induction files arbitrary: acc)
  case (Cons f fs)
  obtain cl pn where acc: "acc = (cl, pn)" by (cases acc)
  show ?case
  proof (cases "entry_name f = ''dummy''")
    case True
    then have "f = DirEntry ''dummy''" by (cases f) simp
    then show ?thesis by (simp add: acc)
  next
    case False
    then have "f \<noteq> DirEntry ''dummy''" by auto
    with False show ?thesis using Cons.IH by (simp add: acc Let_def cong: option.case_cong)
  qed
qed simp

lemma run_processFile_archive:
  assumes "commands_ok E" and k: "stored_archive k"
  obtains h where "run (processFile E (archive_entry k) ''/checkpoints/'') s =
    (Done ([restored_container (ck_Container k)], ck_Pod k, None), s\<lparr>hist := h\<rparr>)"
proof -
  let ?p = "''/checkpoints/'' @ kubelet_file k"
  have "run (RetrieveContainerName ?p) s = (Done (ck_Container k), s)"
    using k by (intro RetrieveContainerName_one_dash) (simp add: stored_archive_def)
  moreover have "failures E h p name < 2" for h p name
    using assms(1) by (simp add: failures_def fails_def commands_ok_def Let_def split: call.split)
  moreover have "RetrievePodName ?p = ck_Pod k"
    using stored_archive_match [OF k] by (simp add: RetrievePodName_def)
  ultimately show thesis
    using that run_processFile(1) [of "archive_entry k" ?p "''/checkpoints/''" s "ck_Container k" E]
      stored_archive_path [OF k] kubelet_file_not_dummy [of k] assms(1)
    by (simp add: commands_ok_def)
qed

lemma process_loop_archives:
  assumes "commands_ok E" and "list_all stored_archive ks"
  shows "\<exists>s'. run (process_loop E ''/checkpoints/'' (map archive_entry ks @ [DirEntry ''dummy''])) s = (Done None, s')"
  using assms(2)
proof (induction ks arbitrary: s)
  case Nil
  show ?case by (simp add: processFile_def)
next
  case (Cons k ks)
  obtain h where "run (processFile E (archive_entry k) ''/checkpoints/'') s =
      (Done ([restored_container (ck_Container k)], ck_Pod k, None), s\<lparr>hist := h\<rparr>)"
    using Cons.prems by (auto intro: run_processFile_archive [OF assms(1), of k s])
  with Cons show ?case by simp
qed

lemma run_BuildahRestorePipelined:
  assumes "commands_ok E" and "list_all stored_archive (k # ks)"
    and "readDir E (hist s) ''/checkpoints/'' = (map archive_entry (k # ks) @ [DirEntry ''dummy''], err)"
    and "\<And>h p. snd (podsCreate E h ns p) = None"
  shows "\<exists>s' h. run (BuildahRestorePipelined E ''/checkpoints/'' ns) s =
      (Done (Some (restored_pod (ck_Pod k) ns []), None), s') \<and>
    hist s' = h @ [PodsCreate ns (restored_pod (ck_Pod k) ns [])]"
proof -
  let ?files = "map archive_entry (k # ks) @ [DirEntry ''dummy'']"
  let ?s = "s\<lparr>hist := hist s @ [ReadDir ''/checkpoints/'']\<rparr>"
  obtain s' where loop: "run (process_loop E ''/checkpoints/'' ?files) ?s = (Done None, s')"
    using process_loop_archives [OF assms(1,2), of ?s] by blast
  have files: "run (getFiles E ''/checkpoints/'') s = (Done ?files, ?s)"
    using assms(3) by (simp add: getFiles_def read_dir_def)
  have first: "run (index ?files 0) ?s = (Done (archive_entry k), ?s)" by (simp add: run_index)
  have pod: "RetrievePodName (kubelet_file k) = ck_Pod k" "ck_Pod k \<noteq> []"
    using assms(2) RetrievePodName_file(1) [of k]
    by (simp_all add: stored_archive_def one_dash_archive_def ordinary_pod_def)
  show ?thesis
    unfolding BuildahRestorePipelined_def run_bind files first after_simps Let_def
    using pod loop assms(4)
    by (simp add: pods_Create_def case_prod_beta del: process_loop.simps list.map map_append)
qed

text \<open>
  The same among other goroutines, and whatever the API server answers: the pod is asked for.
\<close>

lemma sure_exec:
  "commands_ok E \<Longrightarrow> sure c (\<lambda>r. snd r = None) (exec_cmd E m args)"
  by (simp add: exec_cmd_def sure_perform commands_ok_def)

lemma sure_processFile:
  assumes "commands_ok E" and k: "stored_archive k"
  shows "sure c (\<lambda>(_, _, err). err = None) (processFile E (archive_entry k) ''/checkpoints/'' :: (call, 'm, _) go)"
proof -
  define p where "p = path_join ''/checkpoints/'' (kubelet_file k)"
  have run: "run (RetrieveContainerName p) s = (Done (ck_Container k), s)" for s :: "(call, 'm) world_scheme"
    unfolding p_def stored_archive_path [OF k]
    using k by (intro RetrieveContainerName_one_dash) (simp add: stored_archive_def)
  have name: "(RetrieveContainerName p :: (call, 'm, string) go) = Ret (ck_Container k)"
    by (rule pure_Ret [OF calls_in_RetrieveContainerName run])
  have chmod: "sure c (\<lambda>r. r = None) (file_op E d)" for d
    using assms(1) by (simp add: file_op_def sure_perform commands_ok_def)
  note exec = sure_bind [OF sure_exec [OF assms(1)]]
  show ?thesis
    using kubelet_file_not_dummy [of k]
    by (simp add: processFile_def p_def [symmetric] name Let_def)
      (rule sure_bind [OF chmod], simp, (rule exec, simp add: case_prod_beta send_if_def send_result_def Let_def)+)
qed

lemma sure_process_loop:
  assumes "commands_ok E" and "list_all stored_archive ks"
  shows "sure c (\<lambda>err. err = None) (process_loop E ''/checkpoints/'' (map archive_entry ks @ [DirEntry ''dummy'']))"
  using assms(2)
proof (induction ks)
  case Nil
  show ?case by (simp add: processFile_def)
next
  case (Cons k ks)
  then have k: "stored_archive k" by simp
  show ?case unfolding list.map append_Cons process_loop.simps
    using Cons by (intro sure_bind [OF sure_processFile [OF assms(1) k]]) auto
qed

lemma sure_BuildahRestorePipelined:
  assumes "commands_ok E" and "list_all stored_archive (k # ks)"
    and "\<And>h. readDir E h ''/checkpoints/'' = (map archive_entry (k # ks) @ [DirEntry ''dummy''], err)"
  shows "sure (PodsCreate ns (restored_pod (ck_Pod k) ns [])) (\<lambda>_. False) (BuildahRestorePipelined E ''/checkpoints/'' ns)"
proof -
  let ?files = "map archive_entry (k # ks) @ [DirEntry ''dummy'']"
  let ?c = "PodsCreate ns (restored_pod (ck_Pod k) ns [])"
  have pod: "RetrievePodName (kubelet_file k) = ck_Pod k" "ck_Pod k \<noteq> []"
    using assms(2) RetrievePodName_file(1) [of k]
    by (simp_all add: stored_archive_def one_dash_archive_def ordinary_pod_def)
  have files: "sure ?c (\<lambda>fs. fs = ?files) (getFiles E ''/checkpoints/'')"
    unfolding getFiles_def read_dir_def
    by (rule sure_bind [OF sure_perform [where Q = "\<lambda>r. fst r = ?files"]]) (simp_all add: assms(3) case_prod_beta)
  have first: "index ?files 0 = Ret (archive_entry k)" by (simp add: index_def)
  have create: "sure ?c (\<lambda>_. False) (bind_go (pods_Create E ns (restored_pod (ck_Pod k) ns [])) f)" for f
    unfolding pods_Create_def by (rule sure_bind [OF sure_perform [where Q = "\<lambda>_. False"]]) simp_all
  show ?thesis
    unfolding BuildahRestorePipelined_def
  proof (rule sure_bind [OF files])
    fix fs assume fs: "fs = ?files"
    show "sure ?c (\<lambda>_. False) (bind_go (index fs 0) (\<lambda>first.
        let podName = RetrievePodName (entry_name first) in
        if podName = [] then Ret (None, Some (ErrOther ''failed to retrieve pod name''))
        else bind_go (process_loop E ''/checkpoints/'' fs) (\<lambda>err.
          if err \<noteq> None then Ret (None, err)
          else let containers = []; pod = restored_pod podName ns containers in
            bind_go (pods_Create E ns pod) (\<lambda>(created, err).
              if err \<noteq> None then bind_go (deref created) (\<lambda>_. Ret (None, err)) else Ret (Some pod, None)))))"
      unfolding fs first bind_go.simps Let_def dir_entry.sel
      using pod create by (simp del: list.map map_append process_loop.simps) (rule sure_bind [OF sure_process_loop [OF assms(1,2)]], simp)
  qed
qed

subsection \<open>The race of \<open>BuildahRestoreParallelized\<close>\<close>

lemma schedule_calls:
  "exec_cmd (E\<lparr>schedule := x\<rparr>) m args = exec_cmd E m args" "file_op (E\<lparr>schedule := x\<rparr>) c = file_op E c"
  by (simp_all add: exec_cmd_def file_op_def)

lemma schedule_irrelevant: "restore_worker (E\<lparr>schedule := x\<rparr>) path f = restore_worker E path f"
  by (simp only: restore_worker_def processFile_def schedule_calls)

definition add_container :: "container list \<Rightarrow> container list \<Rightarrow> (restore_vars, unit) prog" where
  "add_container old tmpList = step (\<lambda>s. s\<lparr>rv_containersList := old @ tmpList\<rparr>) (\<lambda>_. ())"

lemma restore_worker_until_write:
  assumes "commands_ok E" and "stored_archive k"
  shows "\<exists>h. \<forall>ts s2. i < length ts \<longrightarrow> ts ! i = restore_worker E ''/checkpoints/'' (archive_entry k) \<longrightarrow>
    interleaves (ts[i := add_container (rv_containersList s) [restored_container (ck_Container k)]])
      (s\<lparr>hist := h, rv_podName := ck_Pod k\<rparr>) s2 \<longrightarrow> interleaves ts s s2"
proof -
  let ?c = "[restored_container (ck_Container k)]"
  obtain h where h: "run (processFile E (archive_entry k) ''/checkpoints/'') s = (Done (?c, ck_Pod k, None), s\<lparr>hist := h\<rparr>)"
    by (rule run_processFile_archive [OF assms])
  let ?p = "bind_go (processFile E (archive_entry k) ''/checkpoints/'') (\<lambda>(tmpList, name, err).
     bind_go (step (\<lambda>s. s\<lparr>rv_podName := name\<rparr>) (\<lambda>_. ())) (\<lambda>_.
     bind_go (step (\<lambda>s. s) rv_containersList) (\<lambda>old. Ret (old, tmpList))))"
  have "run ?p s = (Done (rv_containersList s, ?c), s\<lparr>hist := h, rv_podName := ck_Pod k\<rparr>)"
    using h by simp
  moreover have "restore_worker E ''/checkpoints/'' (archive_entry k) = bind_go ?p (\<lambda>(old, tmpList). add_container old tmpList)"
    by (simp add: restore_worker_def add_container_def bind_go_assoc case_prod_unfold)
  ultimately show ?thesis
    using interleaves_run_prefix [of ?p s "(rv_containersList s, ?c)" "s\<lparr>hist := h, rv_podName := ck_Pod k\<rparr>"]
    by (metis (no_types, lifting) case_prod_conv)
qed

lemma run_restore_worker:
  assumes "commands_ok E" and "stored_archive k"
  obtains h where "run (restore_worker E ''/checkpoints/'' (archive_entry k)) s = (Done (),
    s\<lparr>hist := h, rv_podName := ck_Pod k,
      rv_containersList := rv_containersList s @ [restored_container (ck_Container k)]\<rparr>)"
proof -
  let ?c = "[restored_container (ck_Container k)]"
  obtain h where "run (processFile E (archive_entry k) ''/checkpoints/'') s = (Done (?c, ck_Pod k, None), s\<lparr>hist := h\<rparr>)"
    by (rule run_processFile_archive [OF assms])
  then show thesis by (intro that [of h]) (simp add: restore_worker_def)
qed

lemma run_restore_worker_dummy:
  "run (restore_worker E path (DirEntry ''dummy'')) s = (Done (), s\<lparr>rv_podName := ''dummy''\<rparr>)"
  by (simp add: restore_worker_def processFile_def)

abbreviation workers :: "env \<Rightarrow> checkpoint_id \<Rightarrow> checkpoint_id \<Rightarrow> (restore_vars, unit) prog list" where
  "workers E k1 k2 \<equiv> map (restore_worker E ''/checkpoints/'') [archive_entry k1, archive_entry k2, DirEntry ''dummy'']"

lemma workers_lost_update:
  assumes "commands_ok E" and k1: "stored_archive k1" and k2: "stored_archive k2"
  obtains h s2 where "interleaves (workers E k1 k2) s s2" and "hist s2 = h" and "rv_podName s2 = ''dummy''"
    and "rv_containersList s2 = rv_containersList s @ [restored_container (ck_Container k1)]"
proof -
  let ?ts = "workers E k1 k2"
  let ?w = "add_container (rv_containersList s) [restored_container (ck_Container k1)]"
  obtain h where first: "\<And>ts s2. 0 < length ts \<Longrightarrow> ts ! 0 = restore_worker E ''/checkpoints/'' (archive_entry k1) \<Longrightarrow>
      interleaves (ts[0 := ?w]) (s\<lparr>hist := h, rv_podName := ck_Pod k1\<rparr>) s2 \<Longrightarrow> interleaves ts s s2"
    using restore_worker_until_write [OF assms(1) k1, of 0 s] by blast
  let ?s1 = "s\<lparr>hist := h, rv_podName := ck_Pod k1\<rparr>"
  obtain h' where second: "run (?ts ! 1) ?s1 = (Done (), ?s1\<lparr>hist := h', rv_podName := ck_Pod k2,
      rv_containersList := rv_containersList ?s1 @ [restored_container (ck_Container k2)]\<rparr>)"
    using run_restore_worker [OF assms(1) k2, of ?s1] by auto
  let ?s2 = "?s1\<lparr>hist := h', rv_podName := ck_Pod k2,
      rv_containersList := rv_containersList ?s1 @ [restored_container (ck_Container k2)]\<rparr>"
  let ?s3 = "?s2\<lparr>rv_podName := ''dummy''\<rparr>"
  let ?s4 = "?s3\<lparr>rv_containersList := rv_containersList s @ [restored_container (ck_Container k1)]\<rparr>"
  have "interleaves [Ret (), Ret (), Ret ()] ?s4 ?s4" by (rule interleaves.joined) simp
  then have "interleaves [?w, Ret (), Ret ()] ?s3 ?s4"
    by (intro interleaves_run [of ?w ?s3 ?s4 0]) (simp_all add: add_container_def)
  then have "interleaves [?w, Ret (), ?ts ! 2] ?s2 ?s4"
    by (intro interleaves_run [of "?ts ! 2" ?s2 ?s3 2]) (simp_all add: run_restore_worker_dummy)
  then have "interleaves [?w, ?ts ! 1, ?ts ! 2] ?s1 ?s4"
    by (intro interleaves_run [OF second, of 1]) simp_all
  then have "interleaves ?ts s ?s4" by (intro first) simp_all
  then show thesis by (rule that) simp_all
qed

lemma run_BuildahRestoreParallelized:
  assumes "commands_ok E" and "readDir E (hist s) ''/checkpoints/'' = ([archive_entry k1, archive_entry k2, DirEntry ''dummy''], err)"
    and par: "run (par sched (workers E k1 k2)) (s\<lparr>hist := hist s @ [ReadDir ''/checkpoints/'']\<rparr>) = (Done (), s2)"
  shows "PodsCreate ns (restored_pod (rv_podName s2) ns (rv_containersList s2)) \<in>
    set (hist (snd (run (BuildahRestoreParallelized (E\<lparr>schedule := \<lambda>_. sched\<rparr>) ''/checkpoints/'' ns) s)))"
proof -
  have "restore_worker (E\<lparr>schedule := \<lambda>_. sched\<rparr>) ''/checkpoints/'' = restore_worker E ''/checkpoints/''"
    by (rule ext) (rule schedule_irrelevant)
  then show ?thesis
    using assms(2) par
    by (simp add: BuildahRestoreParallelized_def getFiles_def read_dir_def wait_group_def pods_Create_def case_prod_beta)
qed

lemma workers_in_turn:
  assumes "commands_ok E" and "stored_archive k1" and "stored_archive k2"
  shows "\<exists>s2. run (par [] (workers E k1 k2)) s = (Done (), s2) \<and> rv_podName s2 = ''dummy'' \<and>
    rv_containersList s2 = rv_containersList s @
      [restored_container (ck_Container k1), restored_container (ck_Container k2)]"
proof -
  obtain h where "run (restore_worker E ''/checkpoints/'' (archive_entry k1)) s = (Done (),
    s\<lparr>hist := h, rv_podName := ck_Pod k1,
      rv_containersList := rv_containersList s @ [restored_container (ck_Container k1)]\<rparr>)"
    (is "_ = (_, ?s1)") by (rule run_restore_worker [OF assms(1,2)])
  moreover obtain h' where "run (restore_worker E ''/checkpoints/'' (archive_entry k2)) ?s1 = (Done (),
    ?s1\<lparr>hist := h', rv_podName := ck_Pod k2,
      rv_containersList := rv_containersList ?s1 @ [restored_container (ck_Container k2)]\<rparr>)"
    by (rule run_restore_worker [OF assms(1,3)])
  ultimately show ?thesis by (simp add: run_restore_worker_dummy)
qed

section \<open>Effects\<close>

lemma guar_send [go_calls]: "guar R (send_result n)" "guar R (send_if b n)"
  by (auto simp: send_if_def send_result_def intro!: go_calls)

lemma calls_in_processFile [go_calls]:
  assumes "\<And>p. P (Chmod p 420)" and "\<And>m args. P (Exec m args)"
  shows "calls_in P (processFile E f path)"
  unfolding processFile_def using assms by (intro go_calls) auto

lemma calls_in_process_loop [go_calls]:
  assumes "\<And>p. P (Chmod p 420)" and "\<And>m args. P (Exec m args)"
  shows "calls_in P (process_loop E path files)"
  using assms by (induction files) (auto intro!: go_calls)

lemma calls_in_getFiles [go_calls]: "P (ReadDir path) \<Longrightarrow> calls_in P (getFiles E path)"
  unfolding getFiles_def by (auto intro!: go_calls)

definition creates_only :: "(pod \<Rightarrow> bool) \<Rightarrow> call \<Rightarrow> bool" where
  "creates_only Q c = (case c of PodsCreate ns p \<Rightarrow> Q p | _ \<Rightarrow> True)"

lemma creates_only_simps [simp]:
  "creates_only Q (PodsCreate ns p) = Q p" "creates_only Q (Exec m args)" "creates_only Q (Chmod path n)"
  "creates_only Q (ReadDir path)"
  by (simp_all add: creates_only_def)

lemma calls_in_BuildahRestorePipelined:
  "calls_in (creates_only (\<lambda>p. ps_Containers (pod_Spec p) = [])) (BuildahRestorePipelined E path ns)"
  unfolding BuildahRestorePipelined_def
  by (auto intro!: go_calls simp: restored_pod_def)

section \<open>Properties\<close>

text \<open>C11: \<open>processFile\<close> on an archive whose permissions could be changed: it blocks for ever
  exactly when two or more of the four buildah steps that build the image fail (the channel of
  its messages has room for two and no receiver). With at most one failure it returns no error
  and announces the container, although its image may not exist.\<close>

theorem processFile_outcome:
  assumes "entry_name f \<noteq> ''dummy''" and "p = path_join path (entry_name f)"
    and "run (RetrieveContainerName p) s = (Done name, s)"
    and "fileOp E (hist s) (Chmod p 420) = None"
  shows "fst (run (processFile E f path) s) =
    (if 2 \<le> failures E (hist s @ [Chmod p 420]) p name then Stuck
     else Done ([restored_container name], RetrievePodName p, None))"
  using run_processFile(1) [OF assms refl] run_processFile(2) [OF assms refl] by simp

lemma sample_stored: "stored_archive sample_archive"
  using sample_archive_ok by (simp add: stored_archive_def sample_archive_def kubelet_file_def)

theorem processFile_outcome_witness:
  "fst (run (processFile (env0\<lparr>execCmd := \<lambda>h m args. ([], Some (ErrOther ''exit status 1''))\<rparr>)
      (archive_entry sample_archive) ''/checkpoints/'') start) = Stuck"
proof -
  let ?E = "env0\<lparr>execCmd := \<lambda>h m args. ([], Some (ErrOther ''exit status 1''))\<rparr>"
  let ?p = "''/checkpoints/'' @ kubelet_file sample_archive"
  have "entry_name (archive_entry sample_archive) \<noteq> ''dummy''"
    using kubelet_file_not_dummy by simp
  moreover have "?p = path_join ''/checkpoints/'' (entry_name (archive_entry sample_archive))"
    using stored_archive_path [OF sample_stored] by simp
  moreover have "run (RetrieveContainerName ?p) start = (Done (ck_Container sample_archive), start)"
    by (rule RetrieveContainerName_one_dash [OF sample_archive_ok])
  moreover have "fileOp ?E (hist start) (Chmod ?p 420) = None" by (simp add: env0_def)
  ultimately have "fst (run (processFile ?E (archive_entry sample_archive) ''/checkpoints/'') start) =
      (if 2 \<le> failures ?E (hist start @ [Chmod ?p 420]) ?p (ck_Container sample_archive) then Stuck
       else Done ([restored_container (ck_Container sample_archive)], RetrievePodName ?p, None))"
    by (rule processFile_outcome)
  then show ?thesis by (simp add: failures_def buildah_calls_def fails_def Let_def)
qed

text \<open>\<open>BuildahRestore\<close> on a directory with kubelet archives before the marker, when all
  commands succeed: the pod it creates has the name of the last archive's pod and one container
  per archive, in order, each with the checkpointed container's name and its restored image.\<close>

lemma BuildahRestore_restores:
  assumes "commands_ok E" and "list_all stored_archive ks"
    and "readDir E (hist s) ''/checkpoints/'' = (map archive_entry ks @ DirEntry ''dummy'' # rest, err)"
  shows "\<exists>created s' h. run (BuildahRestore E ''/checkpoints/'' ns) s = (Done (created, None), s') \<and>
    hist s' = h @ [PodsCreate ns (restored_pod (if ks = [] then [] else ck_Pod (last ks)) ns
      (map (\<lambda>k. restored_container (ck_Container k)) ks))]"
  using assms by (rule run_BuildahRestore)

definition sample_restore_env :: env where
  "sample_restore_env = env0\<lparr>readDir := \<lambda>h p. ([archive_entry sample_archive,
     archive_entry (sample_archive\<lparr>ck_Container := ''app-2''\<rparr>), DirEntry ''dummy''], None)\<rparr>"

lemma sample_restore_env_ok: "commands_ok sample_restore_env"
  by (simp add: commands_ok_def sample_restore_env_def env0_def)

lemma sample_stored_2: "stored_archive (sample_archive\<lparr>ck_Container := ''app-2''\<rparr>)"
  unfolding stored_archive_def one_dash_archive_def ordinary_pod_def ordinary_time_def sample_archive_def
    kubelet_file_def by code_simp

lemma BuildahRestore_restores_witness:
  "PodsCreate ''test'' (restored_pod ''web'' ''test'' [restored_container ''app-1'', restored_container ''app-2''])
     \<in> set (hist (snd (run (BuildahRestore sample_restore_env ''/checkpoints/'' ''test'') start)))"
proof -
  let ?ks = "[sample_archive, sample_archive\<lparr>ck_Container := ''app-2''\<rparr>]"
  have ks: "list_all stored_archive ?ks" using sample_stored sample_stored_2 by simp
  have "readDir sample_restore_env (hist start) ''/checkpoints/'' =
      (map archive_entry ?ks @ DirEntry ''dummy'' # [], None)"
    by (simp add: sample_restore_env_def)
  from BuildahRestore_restores [OF sample_restore_env_ok ks this, of "''test''"]
  show ?thesis by (auto simp: sample_archive_def)
qed

text \<open>In a directory that holds the marker and is listed in name order, \<open>BuildahRestore\<close>
  handles exactly the entries whose name is smaller than \<open>dummy\<close>; any other is left out.\<close>

lemma BuildahRestore_scope:
  assumes "sorted files" and "DirEntry ''dummy'' \<in> set files"
  shows "restore_loop E path files acc =
    restore_loop E path (filter (\<lambda>f. f < DirEntry ''dummy'') files) acc"
  using restore_loop_takeWhile [of E path files acc] takeWhile_below [OF assms] by simp

lemma BuildahRestore_scope_witness:
  "restore_loop env0 ''/checkpoints/'' [DirEntry ''dummy'', DirEntry ''web.tar''] ([], ''web'') =
     (Ret (Inr ([], ''web'')) :: (call, unit, goerr + container list \<times> string) go)"
proof -
  have "sorted [DirEntry ''dummy'', DirEntry ''web.tar'']"
    by (simp add: less_eq_dir_entry_def less_eq_list_code less_list_code)
  then have "restore_loop env0 ''/checkpoints/'' [DirEntry ''dummy'', DirEntry ''web.tar''] ([], ''web'') =
      (restore_loop env0 ''/checkpoints/'' (filter (\<lambda>f. f < DirEntry ''dummy'')
        [DirEntry ''dummy'', DirEntry ''web.tar'']) ([], ''web'') :: (call, unit, goerr + container list \<times> string) go)"
    by (rule BuildahRestore_scope) simp
  then show ?thesis by simp
qed

text \<open>\<open>BuildahRestore\<close> panics on an entry before the marker whose path the regular
  expression does not match, after its image was committed: the missing match is noticed and
  then indexed all the same.\<close>

lemma BuildahRestore_unmatched_panics:
  fixes s :: "(call, 'm) world_scheme"
  assumes "commands_ok E" and "readDir E (hist s) path = (f # fs, err)" and "entry_name f \<noteq> ''dummy''"
    and "p = path_join path (entry_name f)"
    and "\<And>s :: (call, 'm) world_scheme. run (RetrieveContainerName p) s = (Done name, s)"
    and "find_checkpoint_match p = None"
  shows "fst (run (BuildahRestore E path ns) s) = Panicked IndexOutOfRange"
  using assms
  by (simp add: BuildahRestore_def read_dir_def file_op_def exec_cmd_def Let_def case_prod_beta commands_ok_def)

lemma BuildahRestore_unmatched_panics_witness:
  "fst (run (BuildahRestore (env0\<lparr>readDir := \<lambda>h p. ([DirEntry ''a.tar''], None)\<rparr>) ''/checkpoints/'' ''test'')
      start) = Panicked IndexOutOfRange"
proof (rule BuildahRestore_unmatched_panics)
  show "''/checkpoints/a.tar'' = path_join ''/checkpoints/'' (entry_name (DirEntry ''a.tar''))" by code_simp
  show "find_checkpoint_match ''/checkpoints/a.tar'' = None" by code_simp
  have "last_year (split ''/checkpoints/a.tar'' ''-'') (length (split ''/checkpoints/a.tar'' ''-'')) = None"
    by code_simp
  then show "run (RetrieveContainerName ''/checkpoints/a.tar'') s = (Done [], s)" for s :: "call world"
    by (simp only: run_RetrieveContainerName Let_def option.case)
qed (simp_all add: commands_ok_def env0_def)

text \<open>C37: \<open>BuildahRestorePipelined\<close> never restores a container: whatever the directory and the
  commands, every pod it asks to create, and every pod it returns, has an empty container list
  (the containers of each archive are assigned to a variable that shadows the list).\<close>

theorem BuildahRestorePipelined_no_containers:
  assumes "run (BuildahRestorePipelined E path ns) s = (r, s')"
  shows "\<exists>cs. hist s' = hist s @ cs \<and>
    (\<forall>ns' p. PodsCreate ns' p \<in> set cs \<longrightarrow> ps_Containers (pod_Spec p) = []) \<and>
    (\<forall>p err. r = Done (Some p, err) \<longrightarrow> ps_Containers (pod_Spec p) = [])"
proof -
  from calls_in_runE [OF calls_in_BuildahRestorePipelined assms] obtain cs
    where cs: "hist s' = hist s @ cs" "list_all (creates_only (\<lambda>p. ps_Containers (pod_Spec p) = [])) cs"
    by blast
  then have "ps_Containers (pod_Spec p) = []" if "PodsCreate ns' p \<in> set cs" for ns' p
    using that by (force simp: list_all_iff)
  moreover have "ps_Containers (pod_Spec p) = []" if "r = Done (Some p, err)" for p err
    using assms that
    by (auto simp: BuildahRestorePipelined_def getFiles_def after_Done_iff Let_def restored_pod_def
        deref_def split: if_splits prod.splits option.splits)
  ultimately show ?thesis using cs by blast
qed

theorem BuildahRestorePipelined_no_containers_witness:
  "\<exists>p s'. run (BuildahRestorePipelined sample_restore_env ''/checkpoints/'' ''test'') start = (Done (Some p, None), s') \<and>
     ps_Containers (pod_Spec p) = []"
proof -
  let ?ks = "[sample_archive\<lparr>ck_Container := ''app-2''\<rparr>]"
  have "list_all stored_archive (sample_archive # ?ks)" using sample_stored sample_stored_2 by simp
  moreover have "readDir sample_restore_env (hist start) ''/checkpoints/'' =
      (map archive_entry (sample_archive # ?ks) @ [DirEntry ''dummy''], None)"
    and "\<And>h p. snd (podsCreate sample_restore_env h ''test'' p) = None"
    by (simp_all add: sample_restore_env_def env0_def)
  ultimately have "\<exists>p s'. run (BuildahRestorePipelined sample_restore_env ''/checkpoints/'' ''test'') start = (Done (Some p, None), s')"
    using run_BuildahRestorePipelined [OF sample_restore_env_ok] by blast
  then show ?thesis using BuildahRestorePipelined_no_containers by blast
qed

text \<open>\<open>BuildahRestorePipelined\<close> panics on an empty directory and on one that cannot be read.\<close>

lemma BuildahRestorePipelined_empty_dir:
  assumes "fst (readDir E (hist s) path) = []"
  shows "fst (run (BuildahRestorePipelined E path ns) s) = Panicked IndexOutOfRange"
  using assms by (simp add: BuildahRestorePipelined_def getFiles_def read_dir_def case_prod_beta run_index)

lemma BuildahRestorePipelined_empty_dir_witness:
  "fst (run (BuildahRestorePipelined env0 ''/checkpoints/'' ''test'') start) = Panicked IndexOutOfRange"
  by (rule BuildahRestorePipelined_empty_dir) (simp add: env0_def)

text \<open>C38: the goroutines of \<open>BuildahRestoreParallelized\<close> race. On a directory with two archives
  and the marker, with every command successful, there is a schedule under which both
  containers are in the created pod and one under which the second is lost; under both the pod
  is created with the name \<open>dummy\<close> instead of the checkpointed pod's name.\<close>

theorem BuildahRestoreParallelized_race:
  assumes "commands_ok E" and "stored_archive k1" and "stored_archive k2" and "rv_containersList s = []"
    and "readDir E (hist s) ''/checkpoints/'' = ([archive_entry k1, archive_entry k2, DirEntry ''dummy''], err)"
  shows "(\<exists>sched. PodsCreate ns (restored_pod ''dummy'' ns
        [restored_container (ck_Container k1), restored_container (ck_Container k2)]) \<in>
      set (hist (snd (run (BuildahRestoreParallelized (E\<lparr>schedule := \<lambda>_. sched\<rparr>) ''/checkpoints/'' ns) s)))) \<and>
    (\<exists>sched. PodsCreate ns (restored_pod ''dummy'' ns [restored_container (ck_Container k1)]) \<in>
      set (hist (snd (run (BuildahRestoreParallelized (E\<lparr>schedule := \<lambda>_. sched\<rparr>) ''/checkpoints/'' ns) s))))"
proof
  let ?s = "s\<lparr>hist := hist s @ [ReadDir ''/checkpoints/'']\<rparr>"
  obtain s2 where "run (par [] (workers E k1 k2)) ?s = (Done (), s2)" and "rv_podName s2 = ''dummy''"
    and "rv_containersList s2 = [restored_container (ck_Container k1), restored_container (ck_Container k2)]"
    using workers_in_turn [OF assms(1-3), of ?s] assms(4) by auto
  with run_BuildahRestoreParallelized [OF assms(1,5), of "[]" s2 ns]
  show "\<exists>sched. PodsCreate ns (restored_pod ''dummy'' ns
        [restored_container (ck_Container k1), restored_container (ck_Container k2)]) \<in>
      set (hist (snd (run (BuildahRestoreParallelized (E\<lparr>schedule := \<lambda>_. sched\<rparr>) ''/checkpoints/'' ns) s)))"
    by metis
  obtain s2 where i: "interleaves (workers E k1 k2) ?s s2" and s2: "rv_podName s2 = ''dummy''"
    "rv_containersList s2 = rv_containersList ?s @ [restored_container (ck_Container k1)]"
    by (rule workers_lost_update [OF assms(1-3)])
  from par_complete [OF i] obtain sched where "run (par sched (workers E k1 k2)) ?s = (Done (), s2)"
    by blast
  moreover have "rv_containersList s2 = [restored_container (ck_Container k1)]" using s2(2) assms(4) by simp
  ultimately
  show "\<exists>sched. PodsCreate ns (restored_pod ''dummy'' ns [restored_container (ck_Container k1)]) \<in>
      set (hist (snd (run (BuildahRestoreParallelized (E\<lparr>schedule := \<lambda>_. sched\<rparr>) ''/checkpoints/'' ns) s)))"
    using run_BuildahRestoreParallelized [OF assms(1,5), of sched s2 ns] s2(1) by metis
qed

theorem BuildahRestoreParallelized_race_witness:
  "\<exists>sched. PodsCreate ''test'' (restored_pod ''dummy'' ''test'' [restored_container ''app-1'']) \<in>
      set (hist (snd (run (BuildahRestoreParallelized (sample_restore_env\<lparr>schedule := \<lambda>_. sched\<rparr>) ''/checkpoints/'' ''test'')
        \<lparr>hist = [], rv_containersList = [], rv_podName = []\<rparr>)))"
proof -
  let ?s = "\<lparr>hist = [], rv_containersList = [], rv_podName = []\<rparr> :: restore_vars"
  have "readDir sample_restore_env (hist ?s) ''/checkpoints/'' = ([archive_entry sample_archive,
      archive_entry (sample_archive\<lparr>ck_Container := ''app-2''\<rparr>), DirEntry ''dummy''], None)"
    and "rv_containersList ?s = []"
    by (simp_all add: sample_restore_env_def)
  from BuildahRestoreParallelized_race [OF sample_restore_env_ok sample_stored sample_stored_2 this(2,1),
      of "''test''", THEN conjunct2]
  show ?thesis by (simp only: sample_archive_def checkpoint_id.simps)
qed

end
