(* ===== verification/Dummy.thy ===== *)
theory Dummy
  imports Utils
begin

text \<open>
  \<open>controllers/dummy/dummy.go\<close>: the receiving side that the controller puts up when the
  source pod is not in this cluster, a pod with the file handler and a service in front of it.
\<close>

section \<open>Definitions\<close>

definition dummy_pod :: "string \<Rightarrow> pod" where
  "dummy_pod ns = \<lparr>
     pod_Meta = meta0\<lparr>om_Name := ''dummy-pod'', om_Namespace := ns,
                      om_Labels := Some [''app'' \<mapsto> ''dummy-pod'']\<rparr>,
     pod_Spec = podSpec0\<lparr>
       ps_Containers := [\<lparr>
         c_Name = ''dummy-container'',
         c_Image = ''docker.io/leonardopoggiani/file-handler:v1.0.1'',
         c_ImagePullPolicy = ''Always'',
         c_Ports = [(''http'', 8080)],
         c_VolumeMounts = [(''checkpoint-files'', ''/mnt/data'')],
         c_Requests = [(''cpu'', ''100m''), (''memory'', ''128Mi'')],
         c_Limits = [(''cpu'', ''250m''), (''memory'', ''256Mi'')]\<rparr>],
       ps_Volumes := [\<lparr>v_Name = ''checkpoint-files'',
                       v_HostPath = Some ''/tmp/checkpoints/checkpoints''\<rparr>]\<rparr>,
     pod_Status = podStatus0\<rparr>"

definition CreateDummyPod :: "env \<Rightarrow> string \<Rightarrow> (call, 'm, goerr option) go" where
  "CreateDummyPod E ns =
     bind_go (pods_Get E ns ''dummy-pod'') (\<lambda>(_, err).
       if err \<noteq> None then
         bind_go (pods_Create E ns (dummy_pod ns)) (\<lambda>(_, err).
           if err \<noteq> None then Ret err
           else
             bind_go (WaitForContainerReady E (om_Name (pod_Meta (dummy_pod ns))) ns ''dummy-container'') (\<lambda>_.
               Ret None))
       else Ret None)"

definition dummy_service :: "string \<Rightarrow> service" where
  "dummy_service ns = \<lparr>
     svc_Meta = meta0\<lparr>om_Name := ''dummy-service'', om_Namespace := ns\<rparr>,
     svc_ClusterIP = [],
     svc_Ports = [(''http'', 80, 8080)],
     svc_Selector = Some [''app'' \<mapsto> ''dummy-pod'']\<rparr>"

definition CreateDummyService :: "env \<Rightarrow> string \<Rightarrow> (call, 'm, goerr option) go" where
  "CreateDummyService E ns =
     bind_go (services_Get E ns ''dummy-service'') (\<lambda>(_, err).
       if err \<noteq> None then
         bind_go (services_Create E ns (dummy_service ns)) (\<lambda>(_, err).
           if err \<noteq> None then Ret err else Ret None)
       else Ret None)"

section \<open>Effects\<close>

lemma dummy_pod_name [simp]: "om_Name (pod_Meta (dummy_pod ns)) = ''dummy-pod''"
  by (simp add: dummy_pod_def)

lemma calls_in_CreateDummyPod [go_calls]:
  assumes "P (PodsGet ns ''dummy-pod'')" and "P (PodsCreate ns (dummy_pod ns))" and "P SelectWait"
  shows "calls_in P (CreateDummyPod E ns)"
  unfolding CreateDummyPod_def using assms by (auto intro!: go_calls)

lemma calls_in_CreateDummyService [go_calls]:
  assumes "P (ServicesGet ns ''dummy-service'')" and "P (ServicesCreate ns (dummy_service ns))"
  shows "calls_in P (CreateDummyService E ns)"
  unfolding CreateDummyService_def using assms by (auto intro!: go_calls)

section \<open>Properties\<close>

text \<open>
  The API server as a store of pods: a get request succeeds exactly for the pods created before,
  a create request succeeds.
\<close>

definition created_pods :: "history \<Rightarrow> (string \<times> string) set" where
  "created_pods h = {(ns, om_Name (pod_Meta p)) |ns p. PodsCreate ns p \<in> set h}"

definition pod_store :: "env \<Rightarrow> bool" where
  "pod_store E \<longleftrightarrow>
     (\<forall>h ns n. (snd (podsGet E h ns n) = None) = ((ns, n) \<in> created_pods h)) \<and>
     (\<forall>h ns p. snd (podsCreate E h ns p) = None)"

definition creates :: "history \<Rightarrow> call list" where
  "creates h = filter (\<lambda>c. \<exists>ns p. c = PodsCreate ns p) h"

lemma creates_append [simp]: "creates (h @ h') = creates h @ creates h'"
  by (simp add: creates_def)

lemma creates_none: "list_all (\<lambda>c. \<forall>ns p. c \<noteq> PodsCreate ns p) cs \<Longrightarrow> creates cs = []"
  by (auto simp: creates_def list_all_iff filter_empty_conv)

lemma CreateDummyPod_exists:
  assumes "snd (podsGet E (hist s) ns ''dummy-pod'') = None"
  shows "run (CreateDummyPod E ns) s = (Done None, s\<lparr>hist := hist s @ [PodsGet ns ''dummy-pod'']\<rparr>)"
  using assms by (simp add: CreateDummyPod_def pods_Get_def case_prod_beta)

lemma CreateDummyPod_new:
  assumes "pod_store E" and "(ns, ''dummy-pod'') \<notin> created_pods (hist s)"
    and "run (CreateDummyPod E ns) s = (Done err, s')"
  shows "err = None \<and> creates (hist s') = creates (hist s) @ [PodsCreate ns (dummy_pod ns)]"
proof -
  let ?s = "s\<lparr>hist := hist s @ [PodsGet ns ''dummy-pod'', PodsCreate ns (dummy_pod ns)]\<rparr>"
  have "after (run (WaitForContainerReady E ''dummy-pod'' ns ''dummy-container'') ?s) (\<lambda>_. run (Ret None)) =
      (Done err, s')"
    using assms by (simp add: CreateDummyPod_def pods_Get_def pods_Create_def case_prod_beta pod_store_def
        split: if_splits)
  then obtain r where w: "run (WaitForContainerReady E ''dummy-pod'' ns ''dummy-container'') ?s = (Done r, s')"
    and "err = None" by (auto elim!: after_DoneE)
  moreover obtain cs where "hist s' = hist ?s @ cs" "list_all (\<lambda>c. \<forall>ns p. c \<noteq> PodsCreate ns p) cs"
    by (rule calls_in_runE [OF _ w, of "\<lambda>c. \<forall>ns p. c \<noteq> PodsCreate ns p"]) (auto intro!: go_calls)
  ultimately show ?thesis using creates_none by (simp add: creates_def)
qed

lemma CreateDummyPod_there:
  assumes "pod_store E" and r1: "run (CreateDummyPod E ns) s = (Done e1, s1)"
  shows "(ns, ''dummy-pod'') \<in> created_pods (hist s1)"
proof (cases "(ns, ''dummy-pod'') \<in> created_pods (hist s)")
  case True
  moreover have "hist s1 = hist s @ [PodsGet ns ''dummy-pod'']"
    using CreateDummyPod_exists [of E s ns] True assms(1) r1 by (auto simp: pod_store_def)
  ultimately show ?thesis by (auto simp: created_pods_def)
next
  case False
  have "PodsCreate ns (dummy_pod ns) \<in> set (creates (hist s1))"
    using CreateDummyPod_new [OF assms(1) False r1] by simp
  then show ?thesis by (force simp: created_pods_def creates_def)
qed

lemma CreateDummyPod_twice:
  assumes "pod_store E"
    and "run (bind_go (CreateDummyPod E ns) (\<lambda>_. CreateDummyPod E ns)) s = (Done err, s')"
  shows "err = None \<and> creates (hist s') = creates (hist s) @
    (if (ns, ''dummy-pod'') \<in> created_pods (hist s) then [] else [PodsCreate ns (dummy_pod ns)])"
proof -
  obtain e1 s1 where r1: "run (CreateDummyPod E ns) s = (Done e1, s1)"
    and r2: "run (CreateDummyPod E ns) s1 = (Done err, s')"
    using assms(2) by (auto elim!: after_DoneE)
  have "(ns, ''dummy-pod'') \<in> created_pods (hist s1)" by (rule CreateDummyPod_there [OF assms(1) r1])
  then have "run (CreateDummyPod E ns) s1 = (Done None, s1\<lparr>hist := hist s1 @ [PodsGet ns ''dummy-pod'']\<rparr>)"
    using assms(1) by (intro CreateDummyPod_exists) (simp add: pod_store_def)
  then have two: "err = None" "creates (hist s') = creates (hist s1)"
    using r2 by (auto simp: creates_def)
  show ?thesis
  proof (cases "(ns, ''dummy-pod'') \<in> created_pods (hist s)")
    case True
    then show ?thesis
      using CreateDummyPod_exists [of E s ns] assms(1) r1 two by (auto simp: pod_store_def creates_def)
  next
    case False
    then show ?thesis using CreateDummyPod_new [OF assms(1) False r1] two by simp
  qed
qed

lemma CreateDummyPod_returns:
  assumes "pod_store E" and "gets_pods E" and "\<And>h. n \<le> selects h \<Longrightarrow> timeoutFires E h"
    and "n < selects (hist s) + loopBound E" and "0 < loopBound E"
  shows "\<exists>err s'. run (CreateDummyPod E ns) s = (Done err, s')"
proof (cases "snd (podsGet E (hist s) ns ''dummy-pod'')")
  case None
  then show ?thesis using CreateDummyPod_exists [of E s ns] by simp
next
  case (Some e)
  let ?s = "s\<lparr>hist := hist s @ [PodsGet ns ''dummy-pod'', PodsCreate ns (dummy_pod ns)]\<rparr>"
  have "n < selects (hist ?s) + loopBound E" using assms(4) by (simp add: selects_def)
  then obtain err s' where "run (WaitForContainerReady E ''dummy-pod'' ns ''dummy-container'') ?s = (Done err, s')"
    unfolding WaitForContainerReady_def using container_ready_loop_returns [OF assms(2,3) _ assms(5)] by blast
  then show ?thesis
    using assms(1) Some
    by (simp add: CreateDummyPod_def pods_Get_def pods_Create_def case_prod_beta pod_store_def)
qed

text \<open>C24: creating the dummy pod is idempotent: against an API server that stores pods, with a timer
  that fires by the time \<open>n\<close> selects were made and \<open>n + 1\<close> iterations of the readiness loop, two
  runs of \<open>CreateDummyPod\<close> in a row return without an error, whether or not the container became
  ready in time, and create the pod at most once, exactly once when it was not there.\<close>

theorem CreateDummyPod_idempotent:
  assumes "pod_store E" and "gets_pods E" and "\<And>h. n \<le> selects h \<Longrightarrow> timeoutFires E h"
    and "n < selects (hist s) + loopBound E" and "0 < loopBound E"
  shows "\<exists>s'. run (bind_go (CreateDummyPod E ns) (\<lambda>_. CreateDummyPod E ns)) s = (Done None, s') \<and>
    creates (hist s') = creates (hist s) @
      (if (ns, ''dummy-pod'') \<in> created_pods (hist s) then [] else [PodsCreate ns (dummy_pod ns)])"
proof -
  obtain e1 s1 where r1: "run (CreateDummyPod E ns) s = (Done e1, s1)"
    using CreateDummyPod_returns [OF assms] by blast
  have "snd (podsGet E (hist s1) ns ''dummy-pod'') = None"
    using CreateDummyPod_there [OF assms(1) r1] assms(1) by (simp add: pod_store_def)
  with r1 have r: "run (bind_go (CreateDummyPod E ns) (\<lambda>_. CreateDummyPod E ns)) s =
      (Done None, s1\<lparr>hist := hist s1 @ [PodsGet ns ''dummy-pod'']\<rparr>)"
    by (simp add: CreateDummyPod_exists)
  from CreateDummyPod_twice [OF assms(1) r] r show ?thesis by blast
qed

definition sample_store_env :: env where
  "sample_store_env = env0\<lparr>podsGet := \<lambda>h ns n.
     if (ns, n) \<in> created_pods h then (Some pod0, None) else (Some pod0, Some (ErrNotFound ''no'')),
     timeoutFires := \<lambda>h. 1 \<le> selects h, loopBound := 2\<rparr>"

theorem CreateDummyPod_idempotent_witness:
  "creates (hist (snd (run (bind_go (CreateDummyPod sample_store_env ''test'')
      (\<lambda>_. CreateDummyPod sample_store_env ''test'')) start))) = [PodsCreate ''test'' (dummy_pod ''test'')]"
proof -
  have "pod_store sample_store_env" by (simp add: pod_store_def sample_store_env_def env0_def)
  moreover have "gets_pods sample_store_env" by (simp add: gets_pods_def sample_store_env_def)
  moreover have "timeoutFires sample_store_env h" if "1 \<le> selects h" for h
    using that by (simp add: sample_store_env_def)
  moreover have "1 < selects (hist start) + loopBound sample_store_env" "0 < loopBound sample_store_env"
    by (simp_all add: sample_store_env_def)
  moreover have "(''test'', ''dummy-pod'') \<notin> created_pods (hist start)" by (simp add: created_pods_def)
  ultimately show ?thesis
    using CreateDummyPod_idempotent [of sample_store_env 1 start "''test''"] by (auto simp: creates_def)
qed

end
