(* ===== verification/Helpers.thy ===== *)
theory Helpers
  imports Utils
begin

text \<open>
  \<open>controllers/helpers.go\<close>: the pod and the deployment that the controller derives from a
  \<open>LiveMigration\<close> and the template of its source pod. A \<open>range\<close> over a map visits the
  keys in the order of the environment.
\<close>

section \<open>Definitions\<close>

text \<open>The loop that copies a map into a fresh one, \<open>for k, v := range m { d[k] = v }\<close>.\<close>

definition copy_entries :: "env \<Rightarrow> gomap \<Rightarrow> (string \<rightharpoonup> string)" where
  "copy_entries E m =
     (case m of
        None \<Rightarrow> Map.empty
      | Some f \<Rightarrow>
          fold (\<lambda>k d. case f k of None \<Rightarrow> d | Some v \<Rightarrow> d(k \<mapsto> v)) (rangeOrder E f) Map.empty)"

definition getPodsLabelSet :: "env \<Rightarrow> podTemplateSpec \<Rightarrow> (string \<rightharpoonup> string)" where
  "getPodsLabelSet E template = copy_entries E (om_Labels (pt_Meta template))"

definition getPodsFinalizers :: "podTemplateSpec \<Rightarrow> string list" where
  "getPodsFinalizers template = om_Finalizers (pt_Meta template)"

definition getPodsAnnotationSet :: "env \<Rightarrow> liveMigration \<Rightarrow> podTemplateSpec \<Rightarrow> (string \<rightharpoonup> string)" where
  "getPodsAnnotationSet E migratingPod template =
     (copy_entries E (om_Annotations (pt_Meta template)))
       (''sourcePod'' \<mapsto> lms_SourcePod (lm_Spec migratingPod),
        ''snapshotPolicy'' \<mapsto> lms_Action (lm_Spec migratingPod),
        ''snapshotPath'' \<mapsto> lms_SnapshotPath (lm_Spec migratingPod))"

definition getPodsPrefix :: "string \<Rightarrow> string" where
  "getPodsPrefix controllerName = controllerName @ ''-''"

definition desiredPod :: "env \<Rightarrow> liveMigration \<Rightarrow> liveMigration \<Rightarrow> string \<Rightarrow> podTemplateSpec \<Rightarrow> pod \<times> goerr option" where
  "desiredPod E migratingPod parentObject ns template =
     (let desiredLabels = getPodsLabelSet E template;
          desiredFinalizers = getPodsFinalizers template;
          desiredAnnotations = getPodsAnnotationSet E migratingPod template;
          prefix = getPodsPrefix (om_Name (lm_Meta parentObject));
          pod = \<lparr>pod_Meta = meta0\<lparr>om_Namespace := ns, om_Labels := Some desiredLabels,
                                   om_Finalizers := desiredFinalizers,
                                   om_Annotations := Some desiredAnnotations,
                                   om_GenerateName := prefix\<rparr>,
                 pod_Spec = pt_Spec template,
                 pod_Status = podStatus0\<rparr>
      in case setControllerReference E migratingPod (pod_Meta pod) of
           Inl err \<Rightarrow> (pod, Some err)
         | Inr m \<Rightarrow> (pod\<lparr>pod_Meta := m\<rparr>, None))"

definition desiredDeployment :: "env \<Rightarrow> liveMigration \<Rightarrow> liveMigration \<Rightarrow> string \<Rightarrow> podTemplateSpec \<Rightarrow> deployment \<times> goerr option" where
  "desiredDeployment E migratingPod parentObject ns template =
     (let desiredLabels = getPodsLabelSet E template;
          desiredFinalizers = getPodsFinalizers template;
          desiredAnnotations = getPodsAnnotationSet E migratingPod template;
          prefix = getPodsPrefix (om_Name (lm_Meta parentObject));
          podSpec = pt_Spec template;
          replicas = ucast (lms_Replicas (lm_Spec migratingPod)) :: 32 word;
          desiredLabels = desiredLabels(''migratingPod'' \<mapsto> om_Name (lm_Meta migratingPod));
          depl = \<lparr>dep_APIVersion = ''apps/v1'', dep_Kind = ''Deployment'',
                  dep_Meta = meta0\<lparr>om_Name := om_Name (lm_Meta migratingPod),
                                   om_Namespace := om_Namespace (lm_Meta migratingPod)\<rparr>,
                  dep_MatchLabels = Some desiredLabels,
                  dep_Replicas = replicas,
                  dep_Template = \<lparr>pt_Meta = meta0\<lparr>om_Namespace := ns, om_Labels := Some desiredLabels,
                                                   om_Finalizers := desiredFinalizers,
                                                   om_Annotations := Some desiredAnnotations,
                                                   om_GenerateName := prefix\<rparr>,
                                  pt_Spec = podSpec\<rparr>\<rparr>
      in case setControllerReference E migratingPod (dep_Meta depl) of
           Inl err \<Rightarrow> (depl, Some err)
         | Inr m \<Rightarrow> (depl\<lparr>dep_Meta := m\<rparr>, None))"

section \<open>Copying maps\<close>

text \<open>What Go promises of \<open>range\<close> over a map: it visits the keys of the map.\<close>

definition ranges :: "env \<Rightarrow> gomap \<Rightarrow> bool" where
  "ranges E m = (case m of None \<Rightarrow> True | Some f \<Rightarrow> set (rangeOrder E f) = dom f)"

lemma copy_fold:
  "fold (\<lambda>k d. case f k of None \<Rightarrow> d | Some v \<Rightarrow> d(k \<mapsto> v)) ks d =
     (\<lambda>k. if k \<in> set ks \<and> f k \<noteq> None then f k else d k)"
  by (induction ks arbitrary: d) (auto simp: fun_eq_iff split: option.split)

lemma copy_entries_exact:
  "ranges E m \<Longrightarrow> copy_entries E m = (case m of None \<Rightarrow> Map.empty | Some f \<Rightarrow> f)"
  by (force simp: copy_entries_def copy_fold ranges_def domIff split: option.split)

section \<open>Properties\<close>

text \<open>C25: the deployment built from a template selects the pods it creates: its selector is the
  label set of its pod template, which is the template's labels with the name of the migration
  under \<open>migratingPod\<close>; the template's own labels are not changed by building it.\<close>

theorem desiredDeployment_selects_its_pods:
  assumes "om_Labels (pt_Meta template) = Some labels" and "ranges E (Some labels)"
    and "desiredDeployment E lm parent ns template = (depl, None)"
  shows "dep_MatchLabels depl = om_Labels (pt_Meta (dep_Template depl)) \<and>
    dep_MatchLabels depl = Some (labels(''migratingPod'' \<mapsto> om_Name (lm_Meta lm)))"
  using assms
  by (auto simp: desiredDeployment_def Let_def getPodsLabelSet_def copy_entries_exact
      split: sum.splits)

definition sample_range_env :: env where
  "sample_range_env = env0\<lparr>rangeOrder := \<lambda>f. filter (\<lambda>k. f k \<noteq> None) [''app'']\<rparr>"

definition sample_template :: podTemplateSpec where
  "sample_template = podTemplateSpec0\<lparr>pt_Meta := meta0\<lparr>om_Labels := Some [''app'' \<mapsto> ''web'']\<rparr>\<rparr>"

theorem desiredDeployment_selects_its_pods_witness:
  "dep_MatchLabels (fst (desiredDeployment sample_range_env sample_migration sample_migration ''test''
     sample_template)) = Some [''app'' \<mapsto> ''web'', ''migratingPod'' \<mapsto> ''mig'']"
proof -
  obtain d where d: "desiredDeployment sample_range_env sample_migration sample_migration ''test''
      sample_template = (d, None)"
    by (auto simp: desiredDeployment_def Let_def sample_range_env_def env0_def)
  have l: "om_Labels (pt_Meta sample_template) = Some [''app'' \<mapsto> ''web'']"
    by (simp add: sample_template_def)
  have "ranges sample_range_env (Some [''app'' \<mapsto> ''web''])"
    by (simp add: ranges_def sample_range_env_def)
  then have "dep_MatchLabels d = Some [''app'' \<mapsto> ''web'', ''migratingPod'' \<mapsto> ''mig'']"
    using desiredDeployment_selects_its_pods [OF l _ d, THEN conjunct2] by (simp add: sample_migration_def)
  with d show ?thesis by simp
qed

text \<open>The pod built from a template carries the template's annotations with three entries set
  from the migration (source pod, action as snapshot policy, snapshot path), and the template's
  labels, finalizers and specification unchanged.\<close>

lemma desiredPod_metadata:
  assumes "ranges E (om_Labels (pt_Meta template))" and "ranges E (om_Annotations (pt_Meta template))"
    and "setControllerReference E lm = Inr" and "desiredPod E lm parent ns template = (pod, err)"
  shows "err = None \<and> pod_Spec pod = pt_Spec template \<and>
    om_Finalizers (pod_Meta pod) = om_Finalizers (pt_Meta template) \<and>
    om_GenerateName (pod_Meta pod) = om_Name (lm_Meta parent) @ ''-'' \<and>
    map_get (om_Labels (pod_Meta pod)) k = map_get (om_Labels (pt_Meta template)) k \<and>
    map_get (om_Annotations (pod_Meta pod)) k =
      (if k = ''sourcePod'' then lms_SourcePod (lm_Spec lm)
       else if k = ''snapshotPolicy'' then lms_Action (lm_Spec lm)
       else if k = ''snapshotPath'' then lms_SnapshotPath (lm_Spec lm)
       else map_get (om_Annotations (pt_Meta template)) k)"
proof -
  let ?m = "meta0\<lparr>om_Namespace := ns, om_Labels := Some (getPodsLabelSet E template),
      om_Finalizers := getPodsFinalizers template,
      om_Annotations := Some (getPodsAnnotationSet E lm template),
      om_GenerateName := getPodsPrefix (om_Name (lm_Meta parent))\<rparr>"
  have "err = None" and "pod_Spec pod = pt_Spec template" and "pod_Meta pod = ?m"
    using assms(3,4) by (auto simp: desiredPod_def Let_def)
  then show ?thesis
    using assms(1,2)
    by (simp add: getPodsLabelSet_def getPodsAnnotationSet_def getPodsFinalizers_def getPodsPrefix_def
        copy_entries_exact split: option.split)
qed

lemma desiredPod_metadata_witness:
  "map_get (om_Annotations (pod_Meta (fst (desiredPod sample_range_env sample_migration sample_migration
     ''test'' sample_template)))) ''sourcePod'' = ''web''"
proof -
  obtain p e where p: "desiredPod sample_range_env sample_migration sample_migration ''test'' sample_template = (p, e)"
    by (cases "desiredPod sample_range_env sample_migration sample_migration ''test'' sample_template")
  have "ranges sample_range_env (om_Labels (pt_Meta sample_template))"
    and "ranges sample_range_env (om_Annotations (pt_Meta sample_template))"
    by (simp_all add: ranges_def sample_range_env_def sample_template_def meta0_def)
  moreover have "setControllerReference sample_range_env sample_migration = Inr"
    by (auto simp: sample_range_env_def env0_def)
  ultimately have "map_get (om_Annotations (pod_Meta p)) ''sourcePod'' = ''web''"
    using desiredPod_metadata [OF _ _ _ p, of "''sourcePod''"]
    by (simp add: sample_migration_def)
  then show ?thesis using p by simp
qed

text \<open>C26: the replica count of the deployment is the migration's count cut to 32 bits: it is the
  same number when that fits an \<open>int32\<close>, and wraps around modulo \<open>2\<^sup>3\<^sup>2\<close> otherwise.\<close>

theorem desiredDeployment_replicas:
  "sint (dep_Replicas (fst (desiredDeployment E lm parent ns template))) =
     (sint (lms_Replicas (lm_Spec lm)) + 2 ^ 31) mod 2 ^ 32 - 2 ^ 31"
proof -
  have "sint (ucast w :: 32 word) = (sint w + 2 ^ 31) mod 2 ^ 32 - 2 ^ 31" for w :: "64 word"
  proof -
    have "sint (ucast w :: 32 word) = signed_take_bit 31 (uint w)"
      by (simp add: sint_uint unsigned_ucast_eq signed_take_bit_take_bit)
    also have "\<dots> = signed_take_bit 31 (signed_take_bit 63 (uint w))"
      by simp
    also have "signed_take_bit 63 (uint w) = sint w" by (simp add: sint_uint)
    finally show ?thesis by (simp add: signed_take_bit_eq_take_bit_shift take_bit_eq_mod)
  qed
  then show ?thesis
    by (simp add: desiredDeployment_def Let_def split: sum.split)
qed

end
