(* ===== verification/Reconcile.thy ===== *)
theory Reconcile
  imports Pipeline_Log Restore Dummy Helpers
begin

text \<open>
  The rest of \<open>controllers/livemigration.go\<close>: the reconciler. \<open>Reconcile\<close> first prepares
  (configuration, the \<open>LiveMigration\<close> object, the template of the source pod or the dummy pod and
  service), then starts two goroutines, one that restores on file events and one that migrates
  once the source pod exists, and waits on two channels. The preparation is a program, the rest
  a machine that contains the machine of theory \<open>Pipeline\<close>.
\<close>

section \<open>Definitions\<close>

text \<open>
  What the preparation reads of the process and its libraries: environment variables, the
  client configuration at a path, the client set made from it, the file watcher and the answer to
  adding the folder to it.
\<close>

record platform =
  se_env :: env
  se_getenv :: "string \<Rightarrow> string"
  se_expand :: "string \<Rightarrow> string"
  se_config :: "string \<Rightarrow> goerr option"
  se_clientset :: "string \<Rightarrow> goerr option"
  se_watcher :: "goerr option"
  se_add :: "goerr option"

definition namespace_of :: "platform \<Rightarrow> string" where
  "namespace_of S = (let namespace = se_getenv S ''NAMESPACE'' in if namespace = [] then ''test'' else namespace)"

definition kubeconfig_of :: "platform \<Rightarrow> string" where
  "kubeconfig_of S =
     (let kubeconfigPath = se_getenv S ''KUBECONFIG'' in
      se_expand S (if kubeconfigPath = [] then ''~/.kube/config'' else kubeconfigPath))"

definition ignore_not_found :: "goerr \<Rightarrow> goerr option" where
  "ignore_not_found e = (if is_not_found e then None else Some e)"

text \<open>
  The branch for a template found for the source pod: \<open>Inl err\<close> is a return with that error,
  \<open>Inr annotations\<close> goes on.
\<close>

definition prepare_template :: "env \<Rightarrow> string \<Rightarrow> liveMigration \<Rightarrow> podTemplateSpec \<Rightarrow> (call, 'm, goerr + gomap) go" where
  "prepare_template E reqNamespace migratingPod template0 =
     (let template =
            (if lms_DestHost (lm_Spec migratingPod) \<noteq> [] then
               template0\<lparr>pt_Spec := (pt_Spec template0)\<lparr>ps_NodeSelector :=
                 Some [''kubernetes.io/hostname'' \<mapsto> lms_DestHost (lm_Spec migratingPod)]\<rparr>\<rparr>
             else template0);
          desiredLabels = (getPodsLabelSet E template)(''migratingPod'' \<mapsto> om_Name (lm_Meta migratingPod));
          annotations = getPodsAnnotationSet E migratingPod template
      in bind_go (perform (ChildPodsList reqNamespace (Some desiredLabels))
                    (\<lambda>h. childPodsList E h reqNamespace (Some desiredLabels))) (\<lambda>r.
           case r of
             Inl err \<Rightarrow> Ret (Inl err)
           | Inr childPods \<Rightarrow>
               (case snd (desiredPod E migratingPod migratingPod reqNamespace template) of
                  Some err \<Rightarrow> Ret (Inl err)
                | None \<Rightarrow>
                    (case snd (desiredDeployment E migratingPod migratingPod reqNamespace template) of
                       Some err \<Rightarrow> Ret (Inl err)
                     | None \<Rightarrow> Ret (Inr (Some annotations))))))"

text \<open>The preparation up to the channels: \<open>Inl err\<close> is \<open>return ctrl.Result{}, err\<close>.\<close>

definition Reconcile_prepare :: "platform \<Rightarrow> string \<Rightarrow> string \<Rightarrow> (call, 'm, goerr option + liveMigration \<times> gomap) go" where
  "Reconcile_prepare S reqNamespace reqName =
     (let E = se_env S; namespace = namespace_of S; kubeconfigPath = kubeconfig_of S in
      case se_config S kubeconfigPath of
        Some err \<Rightarrow> Ret (Inl (Some err))
      | None \<Rightarrow>
        (case se_clientset S kubeconfigPath of
           Some err \<Rightarrow> Ret (Inl (Some err))
         | None \<Rightarrow>
             bind_go (perform (MigrationGet reqNamespace reqName) (\<lambda>h. migrationGet E h reqNamespace reqName)) (\<lambda>r.
               case r of
                 Inl err \<Rightarrow> Ret (Inl (ignore_not_found err))
               | Inr migratingPod \<Rightarrow>
                   if om_Name (pt_Meta (lms_Template (lm_Spec migratingPod))) \<noteq> [] then Ret (Inr (migratingPod, None))
                   else
                     bind_go (GetSourcePodTemplate E (lms_SourcePod (lm_Spec migratingPod)) namespace) (\<lambda>(template, err).
                       case (err, template) of
                         (None, Some t) \<Rightarrow>
                           bind_go (prepare_template E reqNamespace migratingPod t) (\<lambda>r.
                             case r of
                               Inl err \<Rightarrow> Ret (Inl (Some err))
                             | Inr annotations \<Rightarrow> Ret (Inr (migratingPod, annotations)))
                       | _ \<Rightarrow>
                           bind_go (CreateDummyPod E namespace) (\<lambda>_.
                           bind_go (CreateDummyService E namespace) (\<lambda>_.
                             Ret (Inr (migratingPod, None)))))))) "

subsection \<open>The two goroutines and the final wait\<close>

text \<open>A file event: the operation bits of \<open>fsnotify\<close> (\<open>Create\<close> is the lowest one) and the path.\<close>

record fs_event =
  ev_Op :: "32 word"
  ev_Name :: string

definition fsnotify_Create :: "32 word" where
  "fsnotify_Create = 1"

definition restore_event :: "fs_event \<Rightarrow> bool" where
  "restore_event ev \<longleftrightarrow> and (ev_Op ev) fsnotify_Create = fsnotify_Create \<and>
     contains (ev_Name ev) ''/checkpoints/'' \<and> contains (ev_Name ev) ''dummy''"

datatype files_pc = F_Select | F_Restore "(call, unit, pod option \<times> goerr option) go" | F_End

datatype source_pc =
    S_Loop
  | S_Check "(call, unit, pod option \<times> goerr option) go"
  | S_List "(call, unit, containerRef list \<times> goerr option) go"
  | S_Migrate pipeline
  | S_Sleep
  | S_End

datatype wait_pc = R_Select | R_Return "goerr option"

text \<open>
  \<open>rc_detected\<close> and \<open>rc_done\<close> count the sends that wait on \<open>sourcePodDetected\<close> and
  \<open>migrationDone\<close>; \<open>rc_events\<close> and \<open>rc_errors\<close> are what the watcher has delivered.
\<close>

record reconciler =
  rc_world :: "call world"
  rc_files :: files_pc
  rc_source :: source_pc
  rc_wait :: wait_pc
  rc_events :: "fs_event list"
  rc_errors :: nat
  rc_detected :: nat
  rc_done :: nat
  rc_cancelled :: bool
  rc_crash :: "go_panic option"

definition rc_code :: "('b \<Rightarrow> reconciler \<Rightarrow> reconciler) \<Rightarrow> ((call, unit, 'a) go \<Rightarrow> 'b) \<Rightarrow> (call, unit, 'a) go \<Rightarrow>
    ('a \<Rightarrow> 'b) \<Rightarrow> reconciler \<Rightarrow> reconciler option" where
  "rc_code put wrap p k r =
     (case p of
        Ret x \<Rightarrow> Some (put (k x) r)
      | Panic e \<Rightarrow> Some (r\<lparr>rc_crash := Some e\<rparr>)
      | NoFuel \<Rightarrow> None
      | Act a \<Rightarrow>
          (case a (rc_world r) of
             None \<Rightarrow> None
           | Some (w, q) \<Rightarrow> Some (put (wrap q) (r\<lparr>rc_world := w\<rparr>))))"

text \<open>The goroutine that watches the folder; its \<open>select\<close> has three cases.\<close>

datatype files_case = OnEvent | OnError | OnDone

definition files_step :: "platform \<Rightarrow> files_case \<Rightarrow> reconciler \<Rightarrow> reconciler option" where
  "files_step S c r =
     (case rc_files r of
        F_Select \<Rightarrow>
          (if se_watcher S \<noteq> None then Some (r\<lparr>rc_crash := Some NilDereference\<rparr>)
           else case c of
             OnEvent \<Rightarrow>
               (case rc_events r of
                  [] \<Rightarrow> None
                | ev # evs \<Rightarrow>
                    Some (r\<lparr>rc_events := evs,
                            rc_files := (if restore_event ev
                                         then F_Restore (BuildahRestorePipelined (se_env S) ''/checkpoints/'' (namespace_of S))
                                         else F_Select)\<rparr>))
           | OnError \<Rightarrow> if 0 < rc_errors r then Some (r\<lparr>rc_errors := rc_errors r - 1\<rparr>) else None
           | OnDone \<Rightarrow> if rc_cancelled r then Some (r\<lparr>rc_files := F_End\<rparr>) else None)
      | F_Restore p \<Rightarrow>
          (case p of
             Ret (None, None) \<Rightarrow> Some (r\<lparr>rc_crash := Some NilDereference\<rparr>)
           | _ \<Rightarrow> rc_code (\<lambda>x r. r\<lparr>rc_files := x\<rparr>) F_Restore p (\<lambda>_. F_Select) r)
      | F_End \<Rightarrow> None)"

text \<open>
  The goroutine that waits for the source pod and migrates it: a \<open>select\<close> with a default case,
  the check, and the pipelined migration, in which any of the pipeline's goroutines may move.
\<close>

definition source_step :: "platform \<Rightarrow> liveMigration \<Rightarrow> gomap \<Rightarrow> goroutine \<Rightarrow> reconciler \<Rightarrow> reconciler option" where
  "source_step S migratingPod annotations g r =
     (let E = se_env S; namespace = namespace_of S; name = om_Name (lm_Meta migratingPod);
          put = (\<lambda>x r. r\<lparr>rc_source := x\<rparr>)
      in case rc_source r of
        S_Loop \<Rightarrow>
          Some (put (if rc_cancelled r then S_End
                     else S_Check (CheckPodExist E (map_get annotations ''sourcePod'') namespace)) r)
      | S_Check p \<Rightarrow>
          rc_code put S_Check p (\<lambda>(sourcePod, err).
            if err \<noteq> None then S_End
            else if sourcePod \<noteq> None then S_List (PrintContainerIDs E namespace)
            else S_Sleep) r
      | S_List p \<Rightarrow>
          rc_code put S_List p (\<lambda>(containers, err).
            S_Migrate (pipeline_start E containers namespace name (rc_world r))) r
      | S_Migrate st \<Rightarrow>
          (case p_main st of
             M_Return err \<Rightarrow> Some (put S_End r)
           | _ \<Rightarrow>
               (case pipeline_step E namespace name g (st\<lparr>p_world := rc_world r\<rparr>) of
                  None \<Rightarrow> None
                | Some st' \<Rightarrow>
                    Some (r\<lparr>rc_world := p_world st', rc_source := S_Migrate st', rc_crash := p_crash st'\<rparr>)))
      | S_Sleep \<Rightarrow> Some (r\<lparr>rc_world := (rc_world r)\<lparr>hist := hist (rc_world r) @ [Sleep 5]\<rparr>, rc_source := S_Loop\<rparr>)
      | S_End \<Rightarrow> None)"

text \<open>The final \<open>select\<close> of \<open>Reconcile\<close>.\<close>

definition wait_step :: "reconciler \<Rightarrow> reconciler option" where
  "wait_step r =
     (case rc_wait r of
        R_Select \<Rightarrow>
          (if 0 < rc_detected r then
             Some (r\<lparr>rc_detected := rc_detected r - 1, rc_cancelled := True, rc_wait := R_Return None\<rparr>)
           else if 0 < rc_done r then
             Some (r\<lparr>rc_done := rc_done r - 1, rc_cancelled := True, rc_wait := R_Return None\<rparr>)
           else None)
      | R_Return _ \<Rightarrow> None)"

datatype reconcile_choice = Files files_case | Source goroutine | Wait | Deliver fs_event | DeliverError

definition reconcile_step :: "platform \<Rightarrow> liveMigration \<Rightarrow> gomap \<Rightarrow> reconcile_choice \<Rightarrow> reconciler \<Rightarrow> reconciler option" where
  "reconcile_step S migratingPod annotations c r =
     (if rc_crash r \<noteq> None then None
      else case c of
        Files fc \<Rightarrow> files_step S fc r
      | Source g \<Rightarrow> source_step S migratingPod annotations g r
      | Wait \<Rightarrow> wait_step r
      | Deliver ev \<Rightarrow> if se_add S = None then Some (r\<lparr>rc_events := rc_events r @ [ev]\<rparr>) else None
      | DeliverError \<Rightarrow> Some (r\<lparr>rc_errors := rc_errors r + 1\<rparr>))"

text \<open>
  The start of the machine: the channels, the watcher's goroutine, \<open>watcher.Add\<close> and the other
  goroutine. A failed \<open>NewWatcher\<close> is only logged, so the nil watcher is used, in \<open>Add\<close> and by the
  goroutine, and the process panics. A failed \<open>Add\<close> is only logged too; then no file event is ever
  delivered. Before \<open>Add\<close> there are no events, so the watcher's goroutine does nothing that could
  be seen earlier.
\<close>

definition reconcile_start :: "platform \<Rightarrow> call world \<Rightarrow> reconciler" where
  "reconcile_start S w = \<lparr>rc_world = w, rc_files = F_Select, rc_source = S_Loop, rc_wait = R_Select, rc_events = [],
     rc_errors = 0, rc_detected = 0, rc_done = 0, rc_cancelled = False,
     rc_crash = (if se_watcher S \<noteq> None then Some NilDereference else None)\<rparr>"

abbreviation run_reconcile :: "platform \<Rightarrow> liveMigration \<Rightarrow> gomap \<Rightarrow> reconcile_choice list \<Rightarrow> reconciler \<Rightarrow> reconciler" where
  "run_reconcile S lm ann \<equiv> run_machine (reconcile_step S lm ann)"

text \<open>
  \<open>Reconcile\<close>: \<open>Inl\<close> is a return of the preparation, \<open>Inr\<close> the state of the machine after the
  given choices.
\<close>

definition Reconcile :: "platform \<Rightarrow> string \<Rightarrow> string \<Rightarrow> reconcile_choice list \<Rightarrow> call world \<Rightarrow>
    (goerr option \<times> call world + reconciler) outcome" where
  "Reconcile S reqNamespace reqName cs w =
     (case run (Reconcile_prepare S reqNamespace reqName) w of
        (Done (Inl err), w1) \<Rightarrow> Done (Inl (err, w1))
      | (Done (Inr (migratingPod, annotations)), w1) \<Rightarrow>
          Done (Inr (run_reconcile S migratingPod annotations cs (reconcile_start S w1)))
      | (Panicked e, _) \<Rightarrow> Panicked e
      | (Stuck, _) \<Rightarrow> Stuck
      | (OutOfFuel, _) \<Rightarrow> OutOfFuel)"

subsection \<open>The other methods\<close>

definition updateAnnotations :: "env \<Rightarrow> pod \<Rightarrow> string \<Rightarrow> string \<Rightarrow> (call, 'm, goerr option) go" where
  "updateAnnotations E pod snapshotPolicy snapshotPath =
     (let ann = (case om_Annotations (pod_Meta pod) of None \<Rightarrow> Some Map.empty | m \<Rightarrow> m) in
      bind_go (map_put ann ''snapshotPolicy'' snapshotPolicy) (\<lambda>ann.
      bind_go (map_put ann ''snapshotPath'' snapshotPath) (\<lambda>ann.
      let pod' = pod\<lparr>pod_Meta := (pod_Meta pod)\<lparr>om_Annotations := ann\<rparr>\<rparr> in
        perform (PodUpdate pod') (\<lambda>h. podUpdate E h pod'))))"

text \<open>The loop without a pause that waits for the new pod.\<close>

primrec exist_loop :: "env \<Rightarrow> string \<Rightarrow> string \<Rightarrow> nat \<Rightarrow> (call, 'm, unit) go" where
  "exist_loop E newPodName ns 0 = NoFuel"
| "exist_loop E newPodName ns (Suc n) =
     bind_go (CheckPodExist E newPodName ns) (\<lambda>(ok, _).
       if ok \<noteq> None then Ret () else exist_loop E newPodName ns n)"

definition RemoveCheckpointPod :: "env \<Rightarrow> pod \<Rightarrow> string \<Rightarrow> string \<Rightarrow> string \<Rightarrow> (call, 'm, goerr option) go" where
  "RemoveCheckpointPod E pod snapshotPathCurrent newPodName ns =
     bind_go (if newPodName \<noteq> [] then exist_loop E newPodName ns (loopBound E) else Ret ()) (\<lambda>_.
     bind_go (updateAnnotations E pod [] []) (\<lambda>err.
       if err \<noteq> None then Ret err
       else bind_go (file_op E (Chmod snapshotPathCurrent 511)) (\<lambda>err.
         if err \<noteq> None then Ret err
         else bind_go (exec_cmd E Output [''sudo'', ''rm'', ''-rf'', snapshotPathCurrent]) (\<lambda>(_, err).
           Ret err))))"

definition NewKubernetesClient :: "goerr + 'c \<Rightarrow> ('c \<Rightarrow> goerr + 'k) \<Rightarrow> goerr + 'k" where
  "NewKubernetesClient inClusterConfig newForConfig =
     (case inClusterConfig of
        Inl err \<Rightarrow> Inl (ErrOther (''failed to get in-cluster config: '' @ err_text err))
      | Inr config \<Rightarrow>
          (case newForConfig config of
             Inl err \<Rightarrow> Inl (ErrOther (''failed to create kubernetes client: '' @ err_text err))
           | Inr clientset \<Rightarrow> Inr clientset))"

section \<open>Invariants of the machine\<close>

inductive reconcile_trans :: "platform \<Rightarrow> liveMigration \<Rightarrow> gomap \<Rightarrow> reconciler \<Rightarrow> reconciler \<Rightarrow> bool" for S lm ann where
  reconcile_moves: "reconcile_step S lm ann c r = Some r' \<Longrightarrow> reconcile_trans S lm ann r r'"

inductive_simps reconcile_trans_iff: "reconcile_trans S lm ann r r'"

interpretation reconcile_machine: machine "reconcile_step S lm ann" "reconcile_trans S lm ann" for S lm ann
  by unfold_locales (simp add: reconcile_trans_iff)

text \<open>Nobody sends on the channels that the final \<open>select\<close> waits on, so it never gets further.\<close>

definition waiting :: "reconciler \<Rightarrow> bool" where
  "waiting r \<longleftrightarrow> rc_detected r = 0 \<and> rc_done r = 0 \<and> rc_wait r = R_Select \<and> \<not> rc_cancelled r"

lemma rc_codeE [consumes 1, case_names ret panic act]:
  assumes "rc_code put wrap p k r = Some r'"
  obtains x where "p = Ret x" and "r' = put (k x) r"
  | e where "p = Panic e" and "r' = r\<lparr>rc_crash := Some e\<rparr>"
  | a w q where "p = Act a" and "a (rc_world r) = Some (w, q)" and "r' = put (wrap q) (r\<lparr>rc_world := w\<rparr>)"
  using assms by (auto simp: rc_code_def split: prog.splits option.splits)

lemma waiting_code:
  assumes "rc_code put wrap p k r = Some r'" and "\<And>x r. waiting (put x r) = waiting r" and "waiting r"
  shows "waiting r'"
  using assms(1) by (cases rule: rc_codeE) (use assms(2,3) in \<open>auto simp: waiting_def\<close>)

lemma files_stepE [consumes 1, case_names nil event error finish code]:
  assumes "files_step S c r = Some r'"
  obtains "r' = r\<lparr>rc_crash := Some NilDereference\<rparr>"
  | ev evs where "rc_files r = F_Select" and "rc_events r = ev # evs"
      and "r' = r\<lparr>rc_events := evs, rc_files := (if restore_event ev
        then F_Restore (BuildahRestorePipelined (se_env S) ''/checkpoints/'' (namespace_of S)) else F_Select)\<rparr>"
  | "r' = r\<lparr>rc_errors := rc_errors r - 1\<rparr>"
  | "rc_cancelled r" and "r' = r\<lparr>rc_files := F_End\<rparr>"
  | p where "rc_files r = F_Restore p" and "rc_code (\<lambda>x r. r\<lparr>rc_files := x\<rparr>) F_Restore p (\<lambda>_. F_Select) r = Some r'"
proof (cases "rc_files r")
  case F_Select
  show thesis
  proof (cases "se_watcher S = None")
    case True
    note step = assms [unfolded files_step_def F_Select files_pc.case True]
    show thesis
    proof (cases c)
      case OnEvent
      then show thesis using step F_Select that(2) by (cases "rc_events r") simp_all
    next
      case OnError
      then show thesis using step that(3) by (simp split: if_splits)
    next
      case OnDone
      then show thesis using step that(4) by (simp split: if_splits)
    qed
  next
    case False
    then show thesis using assms F_Select that(1) by (simp add: files_step_def)
  qed
next
  case (F_Restore p)
  show thesis
  proof (cases "p = Ret (None, None)")
    case True
    then show thesis using assms F_Restore that(1) by (simp add: files_step_def)
  next
    case False
    then have "files_step S c r = rc_code (\<lambda>x r. r\<lparr>rc_files := x\<rparr>) F_Restore p (\<lambda>_. F_Select) r"
      using F_Restore by (simp add: files_step_def split: prog.split option.split)
    then show thesis using assms F_Restore that(5) by simp
  qed
next
  case F_End
  with assms have False by (simp add: files_step_def)
  then show thesis by simp
qed

lemma waiting_step:
  assumes "waiting r" and "reconcile_step S lm ann c r = Some r'"
  shows "waiting r'"
proof (cases c)
  case (Files fc)
  then have "files_step S fc r = Some r'" using assms(2) by (simp add: reconcile_step_def split: if_splits)
  then show ?thesis
  proof (cases rule: files_stepE)
    case (code p)
    from code(2) show ?thesis by (rule waiting_code) (use assms(1) in \<open>simp_all add: waiting_def\<close>)
  qed (use assms(1) in \<open>auto simp: waiting_def\<close>)
next
  case (Source g)
  then have step: "source_step S lm ann g r = Some r'" using assms(2) by (simp add: reconcile_step_def split: if_splits)
  have upd: "waiting (r\<lparr>rc_source := x\<rparr>) = waiting r" for x r by (simp add: waiting_def)
  show ?thesis
  proof (cases "rc_source r")
    case (S_Check p)
    with step show ?thesis unfolding source_step_def Let_def
      by (auto intro: waiting_code [OF _ upd assms(1)])
  next
    case (S_List p)
    with step show ?thesis unfolding source_step_def Let_def
      by (auto intro: waiting_code [OF _ upd assms(1)])
  qed (use step assms(1) in \<open>auto simp: source_step_def Let_def waiting_def split: main.splits option.splits\<close>)
qed (use assms in \<open>auto simp: reconcile_step_def wait_step_def waiting_def split: if_splits\<close>)

lemma waiting_start: "waiting (reconcile_start S w)"
  by (simp add: waiting_def reconcile_start_def)

interpretation wait_inv: inductive_invariant "\<lambda>r. r = reconcile_start S w" "reconcile_trans S lm ann" waiting
  by unfold_locales (auto simp: reconcile_trans_iff waiting_start intro: waiting_step)

subsection \<open>The calls of the machine\<close>

text \<open>All code that the reconciler can start makes calls in \<open>P\<close> only.\<close>

definition code_ok :: "(call \<Rightarrow> bool) \<Rightarrow> platform \<Rightarrow> liveMigration \<Rightarrow> bool" where
  "code_ok P S lm \<longleftrightarrow>
     (let E = se_env S; ns = namespace_of S; name = om_Name (lm_Meta lm) in
      calls_in P (BuildahRestorePipelined E ''/checkpoints/'' ns :: (call, unit, _) go) \<and>
      (\<forall>n. calls_in P (CheckPodExist E n ns :: (call, unit, _) go)) \<and>
      calls_in P (PrintContainerIDs E ns :: (call, unit, _) go) \<and>
      (\<forall>cs. calls_in P (stage1_body E cs ns name)) \<and>
      calls_in P (TerminateCheckpointedPod E name ns :: (call, unit, _) go) \<and>
      (\<forall>path. calls_in P (worker_body E ns path)) \<and> P cleanup \<and> P (Sleep 5))"

definition files_calls :: "(call \<Rightarrow> bool) \<Rightarrow> files_pc \<Rightarrow> bool" where
  "files_calls P f = (case f of F_Restore p \<Rightarrow> calls_in P p | _ \<Rightarrow> True)"

definition source_calls :: "(call \<Rightarrow> bool) \<Rightarrow> source_pc \<Rightarrow> bool" where
  "source_calls P s =
     (case s of S_Check p \<Rightarrow> calls_in P p | S_List p \<Rightarrow> calls_in P p | S_Migrate st \<Rightarrow> code_calls P st | _ \<Rightarrow> True)"

definition calls_inv :: "(call \<Rightarrow> bool) \<Rightarrow> call world \<Rightarrow> reconciler \<Rightarrow> bool" where
  "calls_inv P w r \<longleftrightarrow> extends P w (rc_world r) \<and> files_calls P (rc_files r) \<and> source_calls P (rc_source r)"

lemma calls_inv_upd [simp]:
  "calls_inv P w (r\<lparr>rc_crash := x\<rparr>) = calls_inv P w r" "calls_inv P w (r\<lparr>rc_events := evs\<rparr>) = calls_inv P w r"
  "calls_inv P w (r\<lparr>rc_errors := n\<rparr>) = calls_inv P w r"
  by (simp_all add: calls_inv_def)

lemma files_calls_code:
  assumes "rc_code (\<lambda>x r. r\<lparr>rc_files := x\<rparr>) F_Restore p k r = Some r'" and "calls_inv P w r" and "calls_in P p"
    and "\<And>x. files_calls P (k x)"
  shows "calls_inv P w r'"
  using assms(1)
proof (cases rule: rc_codeE)
  case (act a v q)
  then have "extends P (rc_world r) v" "calls_in P q" using assms(3) by (auto simp: guar_Act_iff)
  then show ?thesis using act(3) assms(2) by (auto simp: calls_inv_def files_calls_def intro: extends_trans)
qed (use assms(2,4) in \<open>auto simp: calls_inv_def\<close>)

lemma source_calls_code:
  assumes "rc_code (\<lambda>x r. r\<lparr>rc_source := x\<rparr>) wrap p k r = Some r'" and "calls_inv P w r" and "calls_in P p"
    and "\<And>q. calls_in P q \<Longrightarrow> source_calls P (wrap q)" and "\<And>x. source_calls P (k x)"
  shows "calls_inv P w r'"
  using assms(1)
proof (cases rule: rc_codeE)
  case (act a v q)
  then have "extends P (rc_world r) v" "calls_in P q" using assms(3) by (auto simp: guar_Act_iff)
  then show ?thesis using act(3) assms(2,4) by (auto simp: calls_inv_def intro: extends_trans)
qed (use assms(2,5) in \<open>auto simp: calls_inv_def\<close>)

lemma calls_inv_files:
  assumes "code_ok P S lm" and "files_step S c r = Some r'" and "calls_inv P w r"
  shows "calls_inv P w r'"
  using assms(2)
proof (cases rule: files_stepE)
  case (code p)
  show ?thesis using code(2) assms(3)
    by (rule files_calls_code) (use code(1) assms(3) in \<open>simp_all add: calls_inv_def files_calls_def\<close>)
next
  case (event ev evs)
  then show ?thesis using assms(1,3) by (simp add: calls_inv_def files_calls_def code_ok_def Let_def)
qed (use assms(3) in \<open>simp_all add: calls_inv_def files_calls_def\<close>)

lemma pipeline_start_calls: "code_ok P S lm \<Longrightarrow>
    code_calls P (pipeline_start (se_env S) cs (namespace_of S) (om_Name (lm_Meta lm)) v)"
  by (simp add: code_calls_def pipeline_start_def code_ok_def Let_def)

lemma calls_inv_migrate:
  assumes "code_ok P S lm" and "source_step S lm ann g r = Some r'" and "calls_inv P w r" and "rc_source r = S_Migrate st"
  shows "calls_inv P w r'"
proof -
  let ?st = "st\<lparr>p_world := rc_world r\<rparr>"
  consider "r' = r\<lparr>rc_source := S_End\<rparr>"
    | st' where "pipeline_step (se_env S) (namespace_of S) (om_Name (lm_Meta lm)) g ?st = Some st'"
      "r' = r\<lparr>rc_world := p_world st', rc_source := S_Migrate st', rc_crash := p_crash st'\<rparr>"
    using assms(2,4) by (auto simp: source_step_def Let_def split: main.splits option.splits)
  then show ?thesis
  proof cases
    case 1
    then show ?thesis using assms(3) by (simp add: calls_inv_def source_calls_def)
  next
    case 2
    have "code_calls P ?st" using assms(3,4) by (simp add: calls_inv_def source_calls_def code_calls_def)
    then have "code_calls P st'" and "extends P (rc_world r) (p_world st')"
      using pipeline_step_calls [OF 2(1), of P] assms(1) by (simp_all add: code_ok_def Let_def)
    with 2(2) assms(3) show ?thesis by (auto simp: calls_inv_def source_calls_def intro: extends_trans)
  qed
qed

lemma calls_inv_source:
  assumes "code_ok P S lm" and "source_step S lm ann g r = Some r'" and "calls_inv P w r"
  shows "calls_inv P w r'"
proof (cases "rc_source r")
  case (S_Check p)
  from assms(2) S_Check have "rc_code (\<lambda>x r. r\<lparr>rc_source := x\<rparr>) S_Check p (\<lambda>(sourcePod, err).
      if err \<noteq> None then S_End else if sourcePod \<noteq> None then S_List (PrintContainerIDs (se_env S) (namespace_of S))
      else S_Sleep) r = Some r'"
    by (simp add: source_step_def Let_def)
  then show ?thesis using assms(3)
    by (rule source_calls_code)
      (use assms(1,3) S_Check in \<open>auto simp: calls_inv_def source_calls_def code_ok_def Let_def\<close>)
next
  case (S_List p)
  from assms(2) S_List have "rc_code (\<lambda>x r. r\<lparr>rc_source := x\<rparr>) S_List p (\<lambda>(containers, err).
      S_Migrate (pipeline_start (se_env S) containers (namespace_of S) (om_Name (lm_Meta lm)) (rc_world r))) r = Some r'"
    by (simp add: source_step_def Let_def)
  then show ?thesis using assms(3)
    by (rule source_calls_code)
      (use assms(1,3) S_List in \<open>auto simp: calls_inv_def source_calls_def pipeline_start_calls\<close>)
next
  case (S_Migrate st)
  then show ?thesis using calls_inv_migrate [OF assms] by simp
next
  case S_Loop
  then show ?thesis using assms by (auto simp: source_step_def Let_def calls_inv_def source_calls_def code_ok_def)
next
  case S_Sleep
  then show ?thesis using assms
    by (auto simp: source_step_def Let_def calls_inv_def source_calls_def code_ok_def extends_def)
qed (use assms(2) in \<open>simp add: source_step_def Let_def\<close>)

lemma calls_inv_step:
  assumes "code_ok P S lm" and "reconcile_step S lm ann c r = Some r'" and "calls_inv P w r"
  shows "calls_inv P w r'"
proof (cases c)
  case (Files fc)
  then show ?thesis using assms calls_inv_files [OF assms(1)] by (simp add: reconcile_step_def split: if_splits)
next
  case (Source g)
  then show ?thesis using assms calls_inv_source [OF assms(1)] by (simp add: reconcile_step_def split: if_splits)
next
  case Wait
  then show ?thesis using assms(2,3)
    by (auto simp: reconcile_step_def wait_step_def calls_inv_def split: if_splits wait_pc.splits)
qed (use assms(2,3) in \<open>auto simp: reconcile_step_def split: if_splits\<close>)

lemma calls_inv_start: "calls_inv P w (reconcile_start S w)"
  by (simp add: calls_inv_def reconcile_start_def files_calls_def source_calls_def)

interpretation calls: inductive_invariant "\<lambda>r. r = reconcile_start S w \<and> code_ok P S lm" "reconcile_trans S lm ann"
  "\<lambda>r. calls_inv P w r \<and> code_ok P S lm"
  by unfold_locales (auto simp: reconcile_trans_iff calls_inv_start intro: calls_inv_step)

lemma run_reconcile_calls:
  assumes "code_ok P S lm"
  obtains cs' where "hist (rc_world (run_reconcile S lm ann cs (reconcile_start S w))) = hist w @ cs'" and "list_all P cs'"
proof -
  have "calls_inv P w (reconcile_start S w) \<and> code_ok P S lm" using assms calls_inv_start by blast
  from calls.invar_rtranclp [OF reconcile_machine.run_reachable this] show thesis
    using that by (auto simp: calls_inv_def extends_def)
qed

subsection \<open>Without annotations nothing is migrated\<close>

text \<open>The goroutine has only ever asked for the pod with the empty name.\<close>

definition idle :: "platform \<Rightarrow> reconciler \<Rightarrow> bool" where
  "idle S r \<longleftrightarrow>
     (case rc_source r of
        S_Check p \<Rightarrow> p = CheckPodExist (se_env S) [] (namespace_of S) \<or> (\<exists>e. p = Ret (None, Some e))
      | S_Loop \<Rightarrow> True | S_End \<Rightarrow> True | _ \<Rightarrow> False)"

lemma CheckPodExist_fails:
  assumes "\<And>h. snd (podsGet E h ns n) \<noteq> None"
  shows "CheckPodExist E n ns = Act (\<lambda>s. Some (s\<lparr>hist := hist s @ [PodsGet ns n]\<rparr>,
    Ret (None, snd (podsGet E (hist s) ns n))))"
  by (simp add: CheckPodExist_def pods_Get_def perform_def step_def comp_def case_prod_beta assms del: not_None_eq)

lemma idle_step:
  assumes "\<And>h. snd (podsGet (se_env S) h (namespace_of S) []) \<noteq> None" and "idle S r"
    and "reconcile_step S lm None c r = Some r'"
  shows "idle S r'"
proof (cases c)
  case (Files fc)
  then have "files_step S fc r = Some r'" using assms(3) by (simp add: reconcile_step_def split: if_splits)
  then have "rc_source r' = rc_source r"
  proof (cases rule: files_stepE)
    case (code p)
    from code(2) show ?thesis by (cases rule: rc_codeE) simp_all
  qed simp_all
  then show ?thesis using assms(2) by (simp add: idle_def)
next
  case (Source g)
  then have step: "source_step S lm None g r = Some r'" using assms(3) by (simp add: reconcile_step_def split: if_splits)
  show ?thesis
  proof (cases "rc_source r")
    case S_Loop
    then show ?thesis using step by (auto simp: source_step_def Let_def idle_def)
  next
    case (S_Check p)
    let ?a = "\<lambda>s. Some (s\<lparr>hist := hist s @ [PodsGet (namespace_of S) []]\<rparr>,
        Ret (None, snd (podsGet (se_env S) (hist s) (namespace_of S) [])))"
    have "p = Act ?a \<or> (\<exists>e. p = Ret (None, Some e))"
      using assms(2) S_Check CheckPodExist_fails [OF assms(1)] by (auto simp: idle_def)
    then show ?thesis
    proof
      assume "p = Act ?a"
      then have "rc_source r' = S_Check (Ret (None, snd (podsGet (se_env S) (hist (rc_world r)) (namespace_of S) [])))"
        using step S_Check by (auto simp: source_step_def Let_def rc_code_def)
      then show ?thesis using assms(1) [of "hist (rc_world r)"] by (auto simp: idle_def)
    next
      assume "\<exists>e. p = Ret (None, Some e)"
      then show ?thesis using step S_Check by (auto simp: source_step_def Let_def rc_code_def idle_def)
    qed
  qed (use assms(2) step in \<open>simp_all add: idle_def source_step_def Let_def\<close>)
next
  case Wait
  then show ?thesis using assms(2,3)
    by (auto simp: reconcile_step_def wait_step_def idle_def split: if_splits wait_pc.splits)
qed (use assms(2,3) in \<open>auto simp: reconcile_step_def idle_def split: if_splits\<close>)

definition no_empty_name :: "platform \<Rightarrow> bool" where
  "no_empty_name S \<longleftrightarrow> (\<forall>h. snd (podsGet (se_env S) h (namespace_of S) []) \<noteq> None)"

interpretation idle: inductive_invariant "\<lambda>r. r = reconcile_start S w \<and> no_empty_name S" "reconcile_trans S lm None"
  "\<lambda>r. idle S r \<and> no_empty_name S"
proof unfold_locales
  show "idle S r \<and> no_empty_name S" if "r = reconcile_start S w \<and> no_empty_name S" for r
    using that by (simp add: idle_def reconcile_start_def)
  show "idle S r' \<and> no_empty_name S" if "idle S r \<and> no_empty_name S" and "reconcile_trans S lm None r r'" for r r'
    using that idle_step unfolding reconcile_trans_iff no_empty_name_def by blast
qed

subsection \<open>Deletions and creations\<close>

definition machine_call :: "string \<Rightarrow> string \<Rightarrow> call \<Rightarrow> bool" where
  "machine_call ns name c =
     (case c of
        PodsDelete ns' n \<Rightarrow> ns' = ns \<and> n = name
      | PodsCreate ns' p \<Rightarrow> ps_Containers (pod_Spec p) = []
      | ServicesCreate _ _ \<Rightarrow> False
      | PodUpdate _ \<Rightarrow> False
      | _ \<Rightarrow> True)"

lemma machine_call_simps [simp]:
  "machine_call ns name (PodsDelete ns' n) = (ns' = ns \<and> n = name)"
  "machine_call ns name (PodsCreate ns' p) = (ps_Containers (pod_Spec p) = [])"
  "machine_call ns name (PodsGet ns' n)" "machine_call ns name (PodsList ns')" "machine_call ns name (PodsWatch ns' sel)"
  "machine_call ns name (ServicesGet ns' n)" "machine_call ns name (Exec m args)" "machine_call ns name (ReadDir p')"
  "machine_call ns name (RemoveAll p')" "machine_call ns name (MkdirAll p')" "machine_call ns name (Chmod p' k)"
  "machine_call ns name (Chown p')" "machine_call ns name (EntryInfo p')" "machine_call ns name (Sleep k)"
  by (simp_all add: machine_call_def)

lemma machine_call_code: "code_ok (machine_call (namespace_of S) (om_Name (lm_Meta lm))) S lm"
proof -
  let ?P = "machine_call (namespace_of S) (om_Name (lm_Meta lm))"
  have "calls_in ?P (BuildahRestorePipelined (se_env S) ''/checkpoints/'' (namespace_of S) :: (call, unit, _) go)"
    unfolding BuildahRestorePipelined_def by (auto intro!: go_calls simp: restored_pod_def)
  moreover have "calls_in ?P (stage1_body (se_env S) cs (namespace_of S) (om_Name (lm_Meta lm)))" for cs
    unfolding stage1_body_def by (intro go_calls) (simp_all add: checkpoint_call_def)
  moreover have "calls_in ?P (worker_body (se_env S) (namespace_of S) path)" for path
    unfolding worker_body_def by (intro go_calls) (auto simp: upload_call_def intro!: go_calls)
  ultimately show ?thesis by (auto simp: code_ok_def Let_def intro!: go_calls)
qed

subsection \<open>Preparation\<close>

lemma prepare_template_source:
  assumes "run (prepare_template E reqNs lm template) s = (Done (Inr ann), s')"
  shows "map_get ann ''sourcePod'' = lms_SourcePod (lm_Spec lm) \<and> ann \<noteq> None"
proof -
  from assms obtain t where "ann = Some (getPodsAnnotationSet E lm t)"
    by (auto simp: prepare_template_def Let_def after_Done_iff split: sum.splits option.splits)
  then show ?thesis by (simp add: getPodsAnnotationSet_def)
qed

subsection \<open>Removing a snapshot\<close>

definition gets_of :: "string \<Rightarrow> string \<Rightarrow> history \<Rightarrow> nat" where
  "gets_of ns n h = length (filter (\<lambda>c. c = PodsGet ns n) h)"

text \<open>The pod shows up at the request number \<open>k\<close>.\<close>

definition appears :: "env \<Rightarrow> string \<Rightarrow> string \<Rightarrow> nat \<Rightarrow> bool" where
  "appears E ns n k \<longleftrightarrow>
     (\<forall>h. if k \<le> gets_of ns n h then \<exists>p. podsGet E h ns n = (Some p, None)
          else snd (podsGet E h ns n) \<noteq> None)"

lemma exist_loop_returns:
  assumes "appears E ns n k" and "k < gets_of ns n (hist s) + bound" and "0 < bound"
  shows "run (exist_loop E n ns bound) s =
    (Done (), s\<lparr>hist := hist s @ replicate (Suc (k - gets_of ns n (hist s))) (PodsGet ns n)\<rparr>)"
  using assms(2,3)
proof (induction bound arbitrary: s)
  case (Suc bound)
  let ?s = "s\<lparr>hist := hist s @ [PodsGet ns n]\<rparr>"
  show ?case
  proof (cases "k \<le> gets_of ns n (hist s)")
    case True
    then obtain p where "podsGet E (hist s) ns n = (Some p, None)"
      using assms(1) unfolding appears_def by meson
    then show ?thesis using True by (simp add: CheckPodExist_def pods_Get_def)
  next
    case False
    then have err: "snd (podsGet E (hist s) ns n) \<noteq> None" using assms(1) unfolding appears_def by meson
    have one: "gets_of ns n (hist ?s) = Suc (gets_of ns n (hist s))" by (simp add: gets_of_def)
    then have "k < gets_of ns n (hist ?s) + bound" "0 < bound" using Suc.prems False by auto
    moreover have "k - gets_of ns n (hist s) = Suc (k - Suc (gets_of ns n (hist s)))" using False by simp
    ultimately show ?thesis using Suc.IH [of ?s] err one
      by (simp add: CheckPodExist_def pods_Get_def case_prod_beta)
  qed
qed simp

definition cleared :: "pod \<Rightarrow> pod" where
  "cleared pod = pod\<lparr>pod_Meta := (pod_Meta pod)\<lparr>om_Annotations :=
     Some ((case om_Annotations (pod_Meta pod) of None \<Rightarrow> Map.empty | Some f \<Rightarrow> f)
       (''snapshotPolicy'' \<mapsto> [], ''snapshotPath'' \<mapsto> []))\<rparr>\<rparr>"

lemma run_updateAnnotations:
  "run (updateAnnotations E pod [] []) s =
     (Done (podUpdate E (hist s) (cleared pod)), s\<lparr>hist := hist s @ [PodUpdate (cleared pod)]\<rparr>)"
  by (simp add: updateAnnotations_def cleared_def Let_def split: option.split)

subsection \<open>The folder watcher at work\<close>

text \<open>
  The goroutine that watches the folder is on its way to the call \<open>c\<close> of its restore: an event that
  starts the restore is waiting for it, or the restore runs and is sure to make the call.
\<close>

definition restoring :: "call \<Rightarrow> reconciler \<Rightarrow> bool" where
  "restoring c r \<longleftrightarrow> rc_crash r = None \<and> waiting r \<and>
     (case rc_files r of
        F_Select \<Rightarrow> \<exists>ev \<in> set (rc_events r). restore_event ev
      | F_Restore p \<Rightarrow> sure c (\<lambda>_. False) p
      | F_End \<Rightarrow> False)"

text \<open>How far it has to go: the events before the one that starts the restore, then the rest of the program.\<close>

definition files_rank :: "reconciler \<Rightarrow> nat \<times> (call, unit, pod option \<times> goerr option) go" where
  "files_rank r =
     (case rc_files r of
        F_Select \<Rightarrow> (Suc (length (takeWhile (\<lambda>ev. \<not> restore_event ev) (rc_events r))), NoFuel)
      | F_Restore p \<Rightarrow> (0, p)
      | F_End \<Rightarrow> (0, NoFuel))"

lemma files_frame:
  assumes "rc_files r' = rc_files r" and "rc_events r' = rc_events r"
  shows "files_rank r' = files_rank r"
    and "restoring c r \<Longrightarrow> rc_crash r' = None \<Longrightarrow> waiting r' \<Longrightarrow> restoring c r'"
  using assms by (simp_all add: files_rank_def restoring_def split: files_pc.splits)

text \<open>One step of the goroutine itself: it comes closer, or makes the call.\<close>

lemma restoring_files:
  assumes "restoring c r" and "files_step S fc r = Some r'" and "se_watcher S = None"
    and sure: "sure c (\<lambda>_. False) (BuildahRestorePipelined (se_env S) ''/checkpoints/'' (namespace_of S) :: (call, unit, _) go)"
  shows "(\<exists>ds. hist (rc_world r') = hist (rc_world r) @ ds \<and> c \<in> set ds) \<or>
    restoring c r' \<and> (files_rank r', files_rank r) \<in> left_rel \<or>
    fc \<noteq> OnEvent \<and> restoring c r' \<and> files_rank r' = files_rank r"
proof (cases "rc_files r")
  case F_Select
  have w: "waiting r" "\<not> rc_cancelled r" and cr: "rc_crash r = None" using assms(1) by (auto simp: restoring_def waiting_def)
  show ?thesis
  proof (cases fc)
    case OnEvent
    from assms(1) F_Select obtain ev evs where evs: "rc_events r = ev # evs"
      by (cases "rc_events r") (auto simp: restoring_def)
    let ?next = "if restore_event ev then F_Restore (BuildahRestorePipelined (se_env S) ''/checkpoints/'' (namespace_of S)) else F_Select"
    have r': "r' = r\<lparr>rc_events := evs, rc_files := ?next\<rparr>"
      using assms(2,3) F_Select OnEvent evs by (simp add: files_step_def)
    have "restoring c r'" using assms(1) F_Select evs w cr sure by (auto simp: restoring_def waiting_def r')
    moreover have "(files_rank r', files_rank r) \<in> left_rel"
      using F_Select evs by (simp add: files_rank_def left_rel_def r')
    ultimately show ?thesis by blast
  next
    case OnError
    then have "rc_files r' = rc_files r \<and> rc_events r' = rc_events r \<and> rc_crash r' = rc_crash r \<and> (waiting r \<longrightarrow> waiting r')"
      using assms(2,3) F_Select by (auto simp: files_step_def waiting_def split: if_splits)
    then show ?thesis using assms(1) OnError w cr files_frame [of r' r] by simp
  next
    case OnDone
    then show ?thesis using assms(2,3) F_Select w by (simp add: files_step_def)
  qed
next
  case (F_Restore p)
  then have s: "sure c (\<lambda>_. False) p" and cr: "rc_crash r = None" "waiting r" using assms(1) by (auto simp: restoring_def)
  then obtain a where p: "p = Act a" by (cases p) auto
  from s [unfolded p] obtain v q where q: "a (rc_world r) = Some (v, q)"
    "(\<exists>ds. hist v = hist (rc_world r) @ ds \<and> c \<in> set ds) \<or> sure c (\<lambda>_. False) q" by (elim sure_ActE) blast
  then have r': "r' = r\<lparr>rc_world := v, rc_files := F_Restore q\<rparr>"
    using assms(2) F_Restore p by (simp add: files_step_def rc_code_def)
  have "(files_rank r', files_rank r) \<in> left_rel"
    using q(1) F_Restore p by (auto simp: files_rank_def left_rel_def sub_prog_def r')
  then show ?thesis using q(2) cr by (auto simp: restoring_def waiting_def r')
qed (use assms(2) in \<open>simp add: files_step_def\<close>)

lemma restoring_enabled:
  assumes "restoring c r" and "se_watcher S = None"
  shows "reconcile_step S lm ann (Files OnEvent) r \<noteq> None"
proof (cases "rc_files r")
  case F_Select
  with assms show ?thesis
    by (cases "rc_events r") (auto simp: restoring_def reconcile_step_def files_step_def)
next
  case (F_Restore p)
  with assms(1) have "sure c (\<lambda>_. False) p" "rc_crash r = None" by (simp_all add: restoring_def)
  then obtain a where p: "p = Act a" "sure c (\<lambda>_. False) (Act a)" by (cases p) auto
  from p(2) obtain v q where "a (rc_world r) = Some (v, q)" by (elim sure_ActE) blast
  with F_Restore p(1) \<open>rc_crash r = None\<close> show ?thesis
    by (simp add: reconcile_step_def files_step_def rc_code_def)
qed (use assms(1) in \<open>simp add: restoring_def\<close>)

lemma source_step_frame:
  assumes "source_step S lm ann g r = Some r'"
  shows "rc_files r' = rc_files r \<and> rc_events r' = rc_events r"
proof (cases "rc_source r")
  case (S_Check p)
  with assms show ?thesis by (auto simp: source_step_def Let_def elim!: rc_codeE)
next
  case (S_List p)
  with assms show ?thesis by (auto simp: source_step_def Let_def elim!: rc_codeE)
qed (use assms in \<open>auto simp: source_step_def Let_def split: main.splits option.splits\<close>)

text \<open>A step of any goroutine, unless the other goroutine panics.\<close>

lemma restoring_step:
  assumes "restoring c r" and step: "reconcile_step S lm ann ch r = Some r'" and "se_watcher S = None"
    and "sure c (\<lambda>_. False) (BuildahRestorePipelined (se_env S) ''/checkpoints/'' (namespace_of S) :: (call, unit, _) go)"
    and no_panic: "(\<exists>g. ch = Source g) \<Longrightarrow> rc_crash r' = None"
  shows "(\<exists>ds. hist (rc_world r') = hist (rc_world r) @ ds \<and> c \<in> set ds) \<or>
    restoring c r' \<and> ((files_rank r', files_rank r) \<in> left_rel \<or> ch \<noteq> Files OnEvent \<and> files_rank r' = files_rank r)"
proof -
  have w: "waiting r'" using waiting_step [OF _ step] assms(1) by (auto simp: restoring_def)
  have cr: "rc_crash r = None" using assms(1) by (simp add: restoring_def)
  show ?thesis
  proof (cases ch)
    case (Files fc)
    then have "files_step S fc r = Some r'" using step cr by (simp add: reconcile_step_def)
    from restoring_files [OF assms(1) this assms(3,4)] Files show ?thesis by blast
  next
    case (Source g)
    then have "rc_files r' = rc_files r \<and> rc_events r' = rc_events r"
      using step cr by (intro source_step_frame) (simp add: reconcile_step_def)
    then show ?thesis
      using Source no_panic w assms(1) files_frame [of r' r] by simp
  next
    case Wait
    then show ?thesis using step cr assms(1) by (auto simp: reconcile_step_def wait_step_def restoring_def waiting_def)
  next
    case (Deliver ev)
    then have r': "r' = r\<lparr>rc_events := rc_events r @ [ev]\<rparr>" using step cr by (simp add: reconcile_step_def split: if_splits)
    have "files_rank r' = files_rank r"
      using assms(1) by (auto simp: restoring_def files_rank_def r' split: files_pc.splits)
    then show ?thesis using Deliver assms(1) by (auto simp: restoring_def waiting_def r' split: files_pc.splits)
  next
    case DeliverError
    then have "r' = r\<lparr>rc_errors := rc_errors r + 1\<rparr>" using step cr by (simp add: reconcile_step_def)
    then show ?thesis using DeliverError w cr assms(1) files_frame [of r' r] by simp
  qed
qed

text \<open>
  Under a schedule that lets the goroutine move again and again the restore makes its call, unless
  the migrating goroutine panics before.
\<close>

lemma restore_call_made:
  fixes lm :: liveMigration and ann :: gomap
  assumes "restoring c r" and "se_watcher S = None"
    and sure: "sure c (\<lambda>_. False) (BuildahRestorePipelined (se_env S) ''/checkpoints/'' (namespace_of S) :: (call, unit, _) go)"
    and fair: "\<forall>i. \<exists>j\<ge>i. \<sigma> j = Files OnEvent"
  defines "at \<equiv> after_steps (reconcile_step S lm ann) \<sigma> r"
  shows "\<exists>n. (\<exists>ds. hist (rc_world (at (Suc n))) = hist (rc_world (at n)) @ ds \<and> c \<in> set ds) \<or>
    (\<exists>g. \<sigma> n = Source g \<and> rc_crash (at n) = None \<and> rc_crash (at (Suc n)) \<noteq> None)"
proof (rule ccontr)
  assume never: "\<not> ?thesis"
  have inv: "restoring c (at n)" for n
  proof (induction n)
    case 0
    show ?case using assms(1) by (simp add: at_def)
  next
    case (Suc n)
    show ?case
    proof (cases "reconcile_step S lm ann (\<sigma> n) (at n)")
      case (Some t)
      then have t: "at (Suc n) = t" by (simp add: at_def)
      have "rc_crash t = None" if "\<exists>g. \<sigma> n = Source g"
        using never that Suc t unfolding restoring_def by blast
      from restoring_step [OF Suc Some assms(2) sure this] never t show ?thesis by blast
    qed (use Suc in \<open>simp add: at_def\<close>)
  qed
  have rank: "(files_rank (at (Suc n)), files_rank (at n)) \<in> left_rel \<or>
      \<sigma> n \<noteq> Files OnEvent \<and> files_rank (at (Suc n)) = files_rank (at n)" for n
  proof (cases "reconcile_step S lm ann (\<sigma> n) (at n)")
    case None
    then have "\<sigma> n \<noteq> Files OnEvent" using restoring_enabled [OF inv assms(2)] by metis
    then show ?thesis using None by (simp add: at_def)
  next
    case (Some t)
    then have t: "at (Suc n) = t" by (simp add: at_def)
    have "rc_crash t = None" if "\<exists>g. \<sigma> n = Source g"
      using inv [of "Suc n"] t by (simp add: restoring_def)
    from restoring_step [OF inv Some assms(2) sure this] never t show ?thesis by blast
  qed
  show False
    by (rule fair_descent [OF wf_left_rel fair, of "\<lambda>n. files_rank (at n)"]) (use rank in blast)+
qed

text \<open>The calls of a run from a reachable state follow those made before.\<close>

lemma Reconcile_state:
  assumes "Reconcile S reqNs reqName cs w = Done (Inr r)"
  obtains lm ann where "\<And>ds. Reconcile S reqNs reqName (cs @ ds) w = Done (Inr (run_reconcile S lm ann ds r))"
    and "waiting r" and "\<And>ds. \<exists>h. hist (rc_world (run_reconcile S lm ann ds r)) = hist (rc_world r) @ h"
proof -
  obtain lm ann w1 where more: "\<And>ds. Reconcile S reqNs reqName (cs @ ds) w =
      Done (Inr (run_reconcile S lm ann (cs @ ds) (reconcile_start S w1)))"
    and r: "r = run_reconcile S lm ann cs (reconcile_start S w1)"
    using assms unfolding Reconcile_def by (auto split: prod.splits outcome.splits sum.splits)
  let ?P = "machine_call (namespace_of S) (om_Name (lm_Meta lm))"
  have "waiting r"
    unfolding r by (rule wait_inv.invar_rtranclp [OF reconcile_machine.run_reachable waiting_start])
  moreover have "calls_inv ?P w1 r \<and> code_ok ?P S lm"
    unfolding r using calls_inv_start machine_call_code
    by (intro calls.invar_rtranclp [OF reconcile_machine.run_reachable]) blast
  then have inv: "calls_inv ?P (rc_world r) r \<and> code_ok ?P S lm" by (simp add: calls_inv_def extends_refl)
  have "calls_inv ?P (rc_world r) (run_reconcile S lm ann ds r) \<and> code_ok ?P S lm" for ds
    by (rule calls.invar_rtranclp [OF reconcile_machine.run_reachable inv])
  then have "\<exists>h. hist (rc_world (run_reconcile S lm ann ds r)) = hist (rc_world r) @ h" for ds
    by (auto simp: calls_inv_def extends_def)
  ultimately show thesis
    using that more by (simp add: r run_machine_append)
qed

section \<open>Properties\<close>

text \<open>C13: once its preparation is over, \<open>Reconcile\<close> never returns: in every state of every execution
  it still waits on two channels on which nothing is ever sent.\<close>

theorem Reconcile_never_returns:
  assumes "Reconcile S reqNs reqName cs w = Done (Inr r)"
  shows "rc_wait r = R_Select \<and> \<not> rc_cancelled r"
proof -
  from assms obtain lm ann w1 where "r = run_reconcile S lm ann cs (reconcile_start S w1)"
    by (auto simp: Reconcile_def split: prod.splits outcome.splits sum.splits)
  then have "(reconcile_trans S lm ann)\<^sup>*\<^sup>* (reconcile_start S w1) r" by (simp add: reconcile_machine.run_reachable)
  from wait_inv.invar_rtranclp [OF this waiting_start] show ?thesis by (simp add: waiting_def)
qed

definition sample_platform :: platform where
  "sample_platform = \<lparr>
     se_env = sample_upload_env\<lparr>migrationGet := \<lambda>h ns n. Inr (sample_migration\<lparr>lm_Spec :=
       (lm_Spec sample_migration)\<lparr>lms_Template := podTemplateSpec0\<lparr>pt_Meta := meta0\<lparr>om_Name := ''web''\<rparr>\<rparr>\<rparr>\<rparr>)\<rparr>,
     se_getenv = (\<lambda>_. []), se_expand = (\<lambda>p. p), se_config = (\<lambda>_. None), se_clientset = (\<lambda>_. None),
     se_watcher = None, se_add = None\<rparr>"

lemma sample_prepare:
  "\<exists>lm w. run (Reconcile_prepare sample_platform ''default'' ''mig'') start = (Done (Inr (lm, None)), w)"
  by (simp add: Reconcile_prepare_def sample_platform_def Let_def)

lemma sample_reconcile:
  obtains r where "Reconcile sample_platform ''default'' ''mig'' cs start = Done (Inr r)"
proof -
  from sample_prepare obtain lm w where
    "run (Reconcile_prepare sample_platform ''default'' ''mig'') start = (Done (Inr (lm, None)), w)" by blast
  then show thesis using that by (simp add: Reconcile_def)
qed

theorem Reconcile_never_returns_witness:
  "\<exists>r. Reconcile sample_platform ''default'' ''mig'' [Source Main, Source Main, Wait] start = Done (Inr r) \<and> rc_wait r = R_Select"
proof (rule sample_reconcile)
  fix r
  assume "Reconcile sample_platform ''default'' ''mig'' [Source Main, Source Main, Wait] start = Done (Inr r)"
  with Reconcile_never_returns show ?thesis by blast
qed

text \<open>\<open>Reconcile\<close> of an object that cannot be read: it makes that one request, ignores \<open>NotFound\<close>
  and returns any other error.\<close>

lemma Reconcile_unreadable:
  assumes "se_config S (kubeconfig_of S) = None" and "se_clientset S (kubeconfig_of S) = None"
    and "migrationGet (se_env S) (hist w) reqNs reqName = Inl err"
  shows "Reconcile S reqNs reqName cs w =
    Done (Inl (if is_not_found err then None else Some err, w\<lparr>hist := hist w @ [MigrationGet reqNs reqName]\<rparr>))"
  using assms by (simp add: Reconcile_def Reconcile_prepare_def Let_def ignore_not_found_def)

lemma Reconcile_unreadable_witness:
  "Reconcile (sample_platform\<lparr>se_env := env0\<rparr>) ''default'' ''mig'' [] start =
     Done (Inl (None, \<lparr>hist = [MigrationGet ''default'' ''mig'']\<rparr>))"
  by (subst Reconcile_unreadable [where err = "ErrNotFound ''not found''"])
    (simp_all add: sample_platform_def env0_def is_not_found_def)

text \<open>C35: a migration whose template has a name is never carried out: its annotations stay empty, so the
  goroutine asks for the pod with the empty name, which no API server has, and gives up; in no
  state of any execution is the pipelined migration running.\<close>

theorem Reconcile_named_template_idle:
  assumes "se_config S (kubeconfig_of S) = None" and "se_clientset S (kubeconfig_of S) = None"
    and "migrationGet (se_env S) (hist w) reqNs reqName = Inr lm"
    and "om_Name (pt_Meta (lms_Template (lm_Spec lm))) \<noteq> []"
    and "\<And>h. snd (podsGet (se_env S) h (namespace_of S) []) \<noteq> None"
    and "Reconcile S reqNs reqName cs w = Done (Inr r)"
  shows "(\<forall>p. rc_source r \<noteq> S_List p) \<and> (\<forall>st. rc_source r \<noteq> S_Migrate st)"
proof -
  obtain w1 where "r = run_reconcile S lm None cs (reconcile_start S w1)"
    using assms(1-4,6) by (auto simp: Reconcile_def Reconcile_prepare_def Let_def)
  then have reach: "(reconcile_trans S lm None)\<^sup>*\<^sup>* (reconcile_start S w1) r" by (simp add: reconcile_machine.run_reachable)
  have "idle S (reconcile_start S w1) \<and> no_empty_name S"
    using assms(5) by (simp add: idle_def reconcile_start_def no_empty_name_def)
  from idle.invar_rtranclp [OF reach this] show ?thesis by (auto simp: idle_def)
qed

theorem Reconcile_named_template_idle_witness:
  "\<exists>r. Reconcile sample_platform ''default'' ''mig'' [Source Main, Source Main, Source Main] start = Done (Inr r) \<and>
     (\<forall>st. rc_source r \<noteq> S_Migrate st)"
proof (rule sample_reconcile)
  fix r
  assume r: "Reconcile sample_platform ''default'' ''mig'' [Source Main, Source Main, Source Main] start = Done (Inr r)"
  have "\<And>h. snd (podsGet (se_env sample_platform) h (namespace_of sample_platform) []) \<noteq> None"
    by (simp add: sample_platform_def sample_upload_env_def env0_def)
  from Reconcile_named_template_idle [OF _ _ _ _ this r] r show ?thesis
    by (auto simp: sample_platform_def)
qed

text \<open>C12: what \<open>Reconcile\<close> does to pods after its preparation, in every state of every execution: it asks
  for the deletion of one pod only, the one with the name of the \<open>LiveMigration\<close> object (not the
  source pod of its specification), and every pod it creates has no containers.\<close>

theorem Reconcile_effects:
  assumes "run (Reconcile_prepare S reqNs reqName) w = (Done (Inr (lm, ann)), w1)"
    and "Reconcile S reqNs reqName cs w = Done (Inr r)"
  shows "\<exists>cs'. hist (rc_world r) = hist w1 @ cs' \<and>
    (\<forall>ns n. PodsDelete ns n \<in> set cs' \<longrightarrow> ns = namespace_of S \<and> n = om_Name (lm_Meta lm)) \<and>
    (\<forall>ns p. PodsCreate ns p \<in> set cs' \<longrightarrow> ps_Containers (pod_Spec p) = [])"
proof -
  have r: "r = run_reconcile S lm ann cs (reconcile_start S w1)" using assms by (simp add: Reconcile_def)
  obtain cs' where "hist (rc_world r) = hist w1 @ cs'"
    and ok: "list_all (machine_call (namespace_of S) (om_Name (lm_Meta lm))) cs'"
    unfolding r by (rule run_reconcile_calls [OF machine_call_code])
  moreover have "machine_call (namespace_of S) (om_Name (lm_Meta lm)) c" if "c \<in> set cs'" for c
    using ok that by (simp add: list_all_iff)
  ultimately show ?thesis by (metis machine_call_simps(1,2))
qed

theorem Reconcile_effects_witness:
  "\<exists>lm w cs'. \<exists>r :: reconciler. run (Reconcile_prepare sample_platform ''default'' ''mig'') start = (Done (Inr (lm, None)), w) \<and>
     Reconcile sample_platform ''default'' ''mig'' [Source Main, Deliver \<lparr>ev_Op = 1, ev_Name = ''/checkpoints/dummy''\<rparr>,
       Files OnEvent] start = Done (Inr r) \<and>
     hist (rc_world r) = hist w @ cs' \<and> (\<forall>ns p. PodsCreate ns p \<in> set cs' \<longrightarrow> ps_Containers (pod_Spec p) = [])"
proof -
  from sample_prepare obtain lm w where
    p: "run (Reconcile_prepare sample_platform ''default'' ''mig'') start = (Done (Inr (lm, None)), w)" by blast
  obtain r where rec: "Reconcile sample_platform ''default'' ''mig'' [Source Main, Deliver \<lparr>ev_Op = 1, ev_Name = ''/checkpoints/dummy''\<rparr>,
      Files OnEvent] start = Done (Inr r)"
    by (rule sample_reconcile)
  from Reconcile_effects [OF p rec] obtain cs' where "hist (rc_world r) = hist w @ cs'"
    and "\<forall>ns p. PodsCreate ns p \<in> set cs' \<longrightarrow> ps_Containers (pod_Spec p) = []" by (elim exE conjE)
  with p rec show ?thesis by (intro exI conjI)
qed

text \<open>The pod that the migrating goroutine waits for is the source pod of the specification exactly
  when the preparation found that pod; in every other case it is the pod with the empty name.\<close>

lemma Reconcile_source_name:
  fixes w :: "(call, 'm) world_scheme"
  assumes "run (Reconcile_prepare S reqNs reqName) w = (Done (Inr (lm, ann)), w1)"
  shows "migrationGet (se_env S) (hist w) reqNs reqName = Inr lm \<and>
    map_get ann ''sourcePod'' = (if ann = None then [] else lms_SourcePod (lm_Spec lm)) \<and>
    (ann \<noteq> None \<longrightarrow> (\<exists>h p. podsGet (se_env S) h (namespace_of S) (lms_SourcePod (lm_Spec lm)) = (Some p, None)))"
proof -
  let ?E = "se_env S"
  obtain lm' where lm': "migrationGet ?E (hist w) reqNs reqName = Inr lm'" and lm: "lm = lm'"
    using assms
    by (auto simp: Reconcile_prepare_def Let_def after_Done_iff split: option.splits sum.splits if_splits prod.splits)
      (metis sum.exhaust)
  show ?thesis
  proof (cases ann)
    case None
    then show ?thesis using lm' lm by simp
  next
    case (Some a)
    have "\<exists>t s2 s3. \<exists>s1 :: (call, 'm) world_scheme. run (GetSourcePodTemplate ?E (lms_SourcePod (lm_Spec lm)) (namespace_of S)) s1 = (Done (Some t, None), s2) \<and>
        run (prepare_template ?E reqNs lm t) s2 = (Done (Inr ann), s3)"
      using assms lm' lm Some
      by (auto simp: Reconcile_prepare_def Let_def elim!: after_DoneE
          split: option.split_asm sum.split_asm if_split_asm prod.split_asm) blast+
    then obtain t s2 and s1 :: "(call, 'm) world_scheme" where g: "run (GetSourcePodTemplate ?E (lms_SourcePod (lm_Spec lm)) (namespace_of S)) s1 = (Done (Some t, None), s2)"
      and "\<exists>s3. run (prepare_template ?E reqNs lm t) s2 = (Done (Inr ann), s3)"
      by blast
    moreover from g have "\<exists>h p. podsGet ?E h (namespace_of S) (lms_SourcePod (lm_Spec lm)) = (Some p, None)"
      by (auto simp: GetSourcePodTemplate_def CheckPodExist_def pods_Get_def after_Done_iff deref_def
          split: option.splits if_splits prod.splits)
    ultimately show ?thesis using lm' lm Some prepare_template_source by fastforce
  qed
qed

lemma Reconcile_source_name_witness:
  "\<exists>lm w. run (Reconcile_prepare sample_platform ''default'' ''mig'') start = (Done (Inr (lm, None)), w) \<and>
     map_get None ''sourcePod'' = [] \<and>
     migrationGet (se_env sample_platform) (hist start) ''default'' ''mig'' = Inr lm"
proof -
  from sample_prepare obtain lm w where
    p: "run (Reconcile_prepare sample_platform ''default'' ''mig'') start = (Done (Inr (lm, None)), w)" by blast
  from Reconcile_source_name [OF p] p show ?thesis by (intro exI conjI) simp_all
qed

text \<open>C32: \<open>RemoveCheckpointPod\<close> waits for the new pod and only then removes the old one's snapshot: if the pod
  shows up at request number \<open>k\<close> (counted from 0), that request is the last one it makes, and as many
  rounds of its loop are enough. It then clears the two annotations of the old pod; only if that succeeds it makes
  the snapshot writable, and only if that succeeds it removes the snapshot. It returns the error of
  the first step that failed, or nil.\<close>

theorem RemoveCheckpointPod_removes:
  fixes s :: "(call, 'm) world_scheme"
  assumes "appears E ns newPodName k" and "k < gets_of ns newPodName (hist s) + loopBound E" and "0 < loopBound E"
    and "newPodName \<noteq> []"
  shows "let h = hist s @ replicate (Suc (k - gets_of ns newPodName (hist s))) (PodsGet ns newPodName);
      update = PodUpdate (cleared pod); chmod = Chmod path 511; rm = [''sudo'', ''rm'', ''-rf'', path]
    in run (RemoveCheckpointPod E pod path newPodName ns) s =
      (case podUpdate E h (cleared pod) of
         Some err \<Rightarrow> (Done (Some err), s\<lparr>hist := h @ [update]\<rparr>)
       | None \<Rightarrow>
           (case fileOp E (h @ [update]) chmod of
              Some err \<Rightarrow> (Done (Some err), s\<lparr>hist := h @ [update, chmod]\<rparr>)
            | None \<Rightarrow> (Done (snd (execCmd E (h @ [update, chmod]) Output rm)),
                s\<lparr>hist := h @ [update, chmod, Exec Output rm]\<rparr>)))"
  using assms(4) exist_loop_returns [OF assms(1-3)]
  by (simp add: RemoveCheckpointPod_def run_updateAnnotations file_op_def exec_cmd_def case_prod_beta Let_def
      del: replicate_Suc not_None_eq split: option.split)

definition sample_removal :: env where
  "sample_removal = env0\<lparr>podsGet := \<lambda>h ns n. if 2 \<le> gets_of ns n h then (Some pod0, None)
     else (None, Some (ErrNotFound ''no'')), loopBound := 3\<rparr>"

theorem RemoveCheckpointPod_removes_witness:
  "run (RemoveCheckpointPod sample_removal pod0 ''/snap'' ''web-2'' ''test'') start =
     (Done None, \<lparr>hist = replicate 3 (PodsGet ''test'' ''web-2'') @
        [PodUpdate (cleared pod0), Chmod ''/snap'' 511, Exec Output [''sudo'', ''rm'', ''-rf'', ''/snap'']]\<rparr>)"
proof -
  have "appears sample_removal ''test'' ''web-2'' 2" by (simp add: appears_def sample_removal_def)
  moreover have "2 < gets_of ''test'' ''web-2'' (hist start) + loopBound sample_removal" "0 < loopBound sample_removal"
    "''web-2'' \<noteq> []" by (simp_all add: sample_removal_def)
  ultimately show ?thesis
    using RemoveCheckpointPod_removes [of sample_removal "''test''" "''web-2''" 2 start pod0 "''/snap''"]
    by (simp add: sample_removal_def env0_def gets_of_def numeral_3_eq_3 numeral_2_eq_2)
qed

end
