(* ===== verification/Endpoints.thy ===== *)
theory Endpoints
  imports Api_Types
begin

text \<open>
  \<open>api-server/endpoints\<close>: the HTTP resource \<open>Livemigrations\<close> (\<open>types.go\<close>, \<open>converter.go\<close>,
  \<open>livemigration.go\<close>). The converter keeps a pointer to the status of the object it converts,
  so it works on an explicit store of \<open>LiveMigration\<close> objects; the handlers make calls of their
  own (lists and creations through the cached client, writes to the response).
\<close>

section \<open>Definitions\<close>

text \<open>
  \<open>Livemigration\<close>: \<open>lv_Status\<close> is the address of the object whose \<open>Status\<close> field the pointer
  \<open>&pm.Status\<close> refers to.
\<close>

record apiMigration =
  lv_Name :: string
  lv_DestHost :: string
  lv_Replicas :: "64 word"
  lv_Selector :: "labelSelector option"
  lv_Action :: string
  lv_SnapshotPath :: string
  lv_SourcePod :: string
  lv_Template :: podTemplateSpec
  lv_Status :: "nat option"

record apiError =
  err_Title :: string
  err_Details :: string

definition Validate :: "apiMigration \<Rightarrow> goerr option" where
  "Validate pm =
     (let validated = True in
      if validated then None
      else Some (ErrOther ''source type validation was not performed, type can only be [WebFolder,S3]''))"

subsection \<open>The converter\<close>

type_synonym objects = "nat \<Rightarrow> liveMigration"

definition from_Object :: "objects \<Rightarrow> nat \<Rightarrow> apiMigration" where
  "from_Object store a =
     (let pm = store a in
      \<lparr>lv_Name = om_Name (lm_Meta pm), lv_DestHost = lms_DestHost (lm_Spec pm),
       lv_Replicas = lms_Replicas (lm_Spec pm), lv_Selector = lms_Selector (lm_Spec pm),
       lv_Action = lms_Action (lm_Spec pm), lv_SnapshotPath = lms_SnapshotPath (lm_Spec pm),
       lv_SourcePod = lms_SourcePod (lm_Spec pm), lv_Template = podTemplateSpec0, lv_Status = Some a\<rparr>)"

text \<open>
  The loop of \<open>From.List\<close>: in Go before 1.22 the variable \<open>r\<close> of the \<open>range\<close> loop is one
  variable, at the address \<open>v\<close>, that every iteration overwrites.
\<close>

fun list_loop :: "nat \<Rightarrow> liveMigration list \<Rightarrow> objects \<Rightarrow> apiMigration list \<times> objects" where
  "list_loop v [] store = ([], store)"
| "list_loop v (r # rs) store =
     (let store1 = store(v := r);
          item = from_Object store1 v;
          (items, store2) = list_loop v rs store1
      in (item # items, store2))"

definition from_List :: "nat \<Rightarrow> liveMigration list \<Rightarrow> objects \<Rightarrow> apiMigration list \<times> objects" where
  "from_List v list store = list_loop v list store"

text \<open>What the JSON encoder sees behind the status pointer.\<close>

definition status_of :: "objects \<Rightarrow> apiMigration \<Rightarrow> liveMigrationStatus option" where
  "status_of store item = map_option (\<lambda>a. lm_Status (store a)) (lv_Status item)"

subsection \<open>The handlers\<close>

datatype api_call =
    ListMigrations
  | ListPods string
  | CreateMigration liveMigration
  | WriteList "(apiMigration \<times> liveMigrationStatus option) list"
  | WriteItem apiMigration "liveMigrationStatus option"
  | WriteError nat apiError

text \<open>
  \<open>ae_entity\<close> is what \<open>ReadEntity\<close> decodes from the request, \<open>ae_fresh\<close> the address of the
  variable or object that the handler allocates.
\<close>

record api_env =
  ae_entity :: "apiMigration \<times> goerr option"
  ae_tables :: "string \<Rightarrow> string"
  ae_listMigrations :: "api_call list \<Rightarrow> goerr + liveMigration list"
  ae_listPods :: "api_call list \<Rightarrow> string \<Rightarrow> goerr + pod list"
  ae_create :: "api_call list \<Rightarrow> liveMigration \<Rightarrow> goerr + liveMigration"
  ae_write :: "api_call list \<Rightarrow> api_call \<Rightarrow> goerr option"
  ae_store :: objects
  ae_fresh :: nat

definition api_namespace :: string where
  "api_namespace = ''test''"

definition writeError :: "api_env \<Rightarrow> nat \<Rightarrow> apiError \<Rightarrow> (api_call, 'm, unit) go" where
  "writeError A httpStatus err =
     bind_go (perform (WriteError httpStatus err) (\<lambda>h. ae_write A h (WriteError httpStatus err))) (\<lambda>_. Ret ())"

definition write_json :: "api_env \<Rightarrow> api_call \<Rightarrow> (api_call, 'm, goerr option) go" where
  "write_json A c = perform c (\<lambda>h. ae_write A h c)"

definition endpoint_list :: "api_env \<Rightarrow> (api_call, 'm, unit) go" where
  "endpoint_list A =
     bind_go (perform ListMigrations (ae_listMigrations A)) (\<lambda>r.
       case r of
         Inl err \<Rightarrow> writeError A 404 \<lparr>err_Title = ''Error'', err_Details = ''Could not retrieve list: '' @ err_text err\<rparr>
       | Inr dl \<Rightarrow>
           (let (l, store) = from_List (ae_fresh A) dl (ae_store A) in
            bind_go (write_json A (WriteList (map (\<lambda>i. (i, status_of store i)) l))) (\<lambda>err.
              if err \<noteq> None then
                writeError A 404 \<lparr>err_Title = ''Error'', err_Details = ''Could not list resources''\<rparr>
              else Ret ())))"

text \<open>The loop that looks for the source pod: the last running pod of that name.\<close>

fun source_loop :: "string \<Rightarrow> pod list \<Rightarrow> pod option \<Rightarrow> pod option" where
  "source_loop name [] sourcePod = sourcePod"
| "source_loop name (p # ps) sourcePod =
     source_loop name ps
       (if om_Name (pod_Meta p) = name \<and> pst_Phase (pod_Status p) = ''Running'' then Some p else sourcePod)"

definition requested :: "api_env \<Rightarrow> apiMigration" where
  "requested A =
     (let pm = fst (ae_entity A) in
      pm\<lparr>lv_Action := to_lower (ae_tables A) (lv_Action pm),
         lv_Selector := Some \<lparr>ls_MatchLabels = Some [''livemig'' \<mapsto> ''unipi'']\<rparr>,
         lv_Template := podTemplateSpec0\<rparr>)"

definition migration_object :: "apiMigration \<Rightarrow> liveMigration" where
  "migration_object pm =
     \<lparr>lm_Meta = meta0\<lparr>om_Name := lv_Name pm, om_Namespace := api_namespace\<rparr>,
      lm_Spec = \<lparr>lms_Replicas = lv_Replicas pm, lms_SourcePod = lv_SourcePod pm, lms_DestHost = lv_DestHost pm,
                 lms_SnapshotPath = lv_SnapshotPath pm, lms_Selector = lv_Selector pm,
                 lms_Template = lv_Template pm, lms_Action = lv_Action pm\<rparr>,
      lm_Status = liveMigrationStatus0\<rparr>"

text \<open>The end of \<open>create\<close>: the object is created and sent back.\<close>

definition create_object :: "api_env \<Rightarrow> apiMigration \<Rightarrow> (api_call, 'm, unit) go" where
  "create_object A pm =
     (let obj = migration_object pm in
      bind_go (perform (CreateMigration obj) (\<lambda>h. ae_create A h obj)) (\<lambda>r.
        case r of
          Inl err \<Rightarrow> writeError A 400 \<lparr>err_Title = ''Error'', err_Details = ''Could not create object: '' @ err_text err\<rparr>
        | Inr obj' \<Rightarrow>
            (let store = (ae_store A)(ae_fresh A := obj');
                 d = from_Object store (ae_fresh A)
             in bind_go (write_json A (WriteItem d (status_of store d))) (\<lambda>err.
                  if err \<noteq> None then
                    writeError A 422 \<lparr>err_Title = ''Error'', err_Details = ''Could not write response''\<rparr>
                  else Ret ()))))"

definition endpoint_create :: "api_env \<Rightarrow> (api_call, 'm, unit) go" where
  "endpoint_create A =
     (let err = snd (ae_entity A); pm = requested A in
      if err \<noteq> None then
        writeError A 400 \<lparr>err_Title = ''Bad Request'', err_Details = ''Could not read entity''\<rparr>
      else case Validate pm of
        Some e \<Rightarrow> writeError A 400 \<lparr>err_Title = ''Validation error'', err_Details = err_text e\<rparr>
      | None \<Rightarrow>
          bind_go
            (if lv_SourcePod pm \<noteq> [] then
               bind_go (perform (ListPods api_namespace) (\<lambda>h. ae_listPods A h api_namespace)) (\<lambda>r.
                 case r of
                   Inl err \<Rightarrow>
                     bind_go (writeError A 400 \<lparr>err_Title = ''Bad Request'',
                                err_Details = ''Could not find any running pod for migration''\<rparr>) (\<lambda>_. Ret (Inl ()))
                 | Inr childPods \<Rightarrow> Ret (Inr (source_loop (lv_SourcePod pm) childPods None)))
             else Ret (Inr None)) (\<lambda>r.
            case r of
              Inl _ \<Rightarrow> Ret ()
            | Inr None \<Rightarrow>
                writeError A 400 \<lparr>err_Title = ''Bad Request'', err_Details = ''Could not find sourcePod for migration''\<rparr>
            | Inr (Some sourcePod) \<Rightarrow> create_object A pm))"

subsection \<open>Routes\<close>

datatype http_method = GET | POST

record route =
  rt_Method :: http_method
  rt_Path :: string
  rt_Statuses :: "nat list"
  rt_Handler :: "api_env \<Rightarrow> (api_call, unit, unit) go"

definition SetupWithWS :: "route list \<Rightarrow> route list" where
  "SetupWithWS ws = ws @
     [\<lparr>rt_Method = GET, rt_Path = ''Livemigrations'', rt_Statuses = [200], rt_Handler = endpoint_list\<rparr>,
      \<lparr>rt_Method = POST, rt_Path = ''Livemigrations'', rt_Statuses = [200, 400], rt_Handler = endpoint_create\<rparr>]"

section \<open>Lemmas\<close>

lemma from_Object_selects [simp]:
  "lv_Name (from_Object store a) = om_Name (lm_Meta (store a))"
  "lv_Status (from_Object store a) = Some a"
  by (simp_all add: from_Object_def Let_def)

text \<open>Leaving the status aside, each item is converted from its own object.\<close>

lemma list_loop_store: "snd (list_loop v rs store) = (if rs = [] then store else store(v := last rs))"
  by (induction rs arbitrary: store) (auto simp: Let_def case_prod_beta)

lemma source_loop_None:
  "source_loop name ps acc = None \<longleftrightarrow> acc = None \<and>
     \<not> (\<exists>p \<in> set ps. om_Name (pod_Meta p) = name \<and> pst_Phase (pod_Status p) = ''Running'')"
  by (induction name ps acc rule: source_loop.induct) auto

lemma run_writeError [go_run, simp]:
  "run (writeError A n e) s = (Done (), s\<lparr>hist := hist s @ [WriteError n e]\<rparr>)"
  by (simp add: writeError_def)

text \<open>The source pod that the request names is running in the namespace of the API server.\<close>

definition source_running :: "api_env \<Rightarrow> api_call list \<Rightarrow> bool" where
  "source_running A h \<longleftrightarrow> lv_SourcePod (fst (ae_entity A)) \<noteq> [] \<and>
     (\<exists>pods. ae_listPods A h api_namespace = Inr pods \<and>
        (\<exists>p \<in> set pods. om_Name (pod_Meta p) = lv_SourcePod (fst (ae_entity A)) \<and> pst_Phase (pod_Status p) = ''Running''))"

lemma requested_SourcePod [simp]: "lv_SourcePod (requested A) = lv_SourcePod (fst (ae_entity A))"
  by (simp add: requested_def Let_def)

lemma Validate_None [simp]: "Validate pm = None"
  by (simp add: Validate_def)

lemma run_create_refused:
  assumes "snd (ae_entity A) \<noteq> None \<or> \<not> source_running A (hist s)"
  shows "\<exists>pre e. run (endpoint_create A) s = (Done (), s\<lparr>hist := hist s @ pre @ [WriteError 400 e]\<rparr>) \<and>
    set pre \<subseteq> {ListPods api_namespace}"
proof (cases "snd (ae_entity A) \<noteq> None \<or> lv_SourcePod (fst (ae_entity A)) = []")
  case True
  then show ?thesis
    by (intro exI [of _ "[]"]) (auto simp: endpoint_create_def Let_def)
next
  case False
  show ?thesis
  proof (cases "ae_listPods A (hist s) api_namespace")
    case (Inl e)
    then have "run (endpoint_create A) s = (Done (), s\<lparr>hist := hist s @ [ListPods api_namespace, WriteError 400
        \<lparr>err_Title = ''Bad Request'', err_Details = ''Could not find any running pod for migration''\<rparr>]\<rparr>)"
      using False by (simp add: endpoint_create_def Let_def)
    then show ?thesis by (intro exI [of _ "[ListPods api_namespace]"] exI) simp
  next
    case (Inr pods)
    then have "source_loop (lv_SourcePod (fst (ae_entity A))) pods None = None"
      using assms False by (auto simp: source_loop_None source_running_def)
    with False Inr have "run (endpoint_create A) s = (Done (), s\<lparr>hist := hist s @ [ListPods api_namespace, WriteError 400
        \<lparr>err_Title = ''Bad Request'', err_Details = ''Could not find sourcePod for migration''\<rparr>]\<rparr>)"
      by (simp add: endpoint_create_def Let_def)
    then show ?thesis by (intro exI [of _ "[ListPods api_namespace]"] exI) simp
  qed
qed

lemma run_create_accepted:
  assumes "snd (ae_entity A) = None" and "source_running A (hist s)"
  shows "run (endpoint_create A) s = run (create_object A (requested A)) (s\<lparr>hist := hist s @ [ListPods api_namespace]\<rparr>)"
proof -
  let ?n = "lv_SourcePod (fst (ae_entity A))"
  from assms(2) obtain pods where pods: "ae_listPods A (hist s) api_namespace = Inr pods"
    and ex: "\<exists>p \<in> set pods. om_Name (pod_Meta p) = ?n \<and> pst_Phase (pod_Status p) = ''Running''"
    unfolding source_running_def by (elim conjE exE)
  have "source_loop ?n pods None \<noteq> None" using ex by (simp only: source_loop_None simp_thms not_False_eq_True)
  then obtain p where "source_loop ?n pods None = Some p" by blast
  with assms pods show ?thesis by (simp add: endpoint_create_def Let_def source_running_def)
qed

section \<open>Properties\<close>

text \<open>C15: the POST handler creates an object only for a readable request whose source pod is running in the
  namespace \<open>test\<close>: in every other case the cluster is only read, nothing is created, and the
  client gets exactly one answer, an error with status 400.\<close>

theorem endpoint_create_refuses:
  assumes "snd (ae_entity A) \<noteq> None \<or> \<not> source_running A (hist s)"
  shows "\<exists>pre e. run (endpoint_create A) s = (Done (), s\<lparr>hist := hist s @ pre @ [WriteError 400 e]\<rparr>) \<and>
    set pre \<subseteq> {ListPods api_namespace}"
  using assms by (rule run_create_refused)

definition sample_entity :: apiMigration where
  "sample_entity = \<lparr>lv_Name = ''mig'', lv_DestHost = ''node-2'', lv_Replicas = 1, lv_Selector = None,
     lv_Action = ''Live-Migration'', lv_SnapshotPath = ''/snap'', lv_SourcePod = ''web'',
     lv_Template = podTemplateSpec0, lv_Status = None\<rparr>"

definition sample_api :: api_env where
  "sample_api = \<lparr>ae_entity = (sample_entity, None), ae_tables = (\<lambda>s. s), ae_listMigrations = (\<lambda>h. Inr []),
     ae_listPods = (\<lambda>h ns. Inr [pod0\<lparr>pod_Meta := meta0\<lparr>om_Name := ''web''\<rparr>,
       pod_Status := podStatus0\<lparr>pst_Phase := ''Running''\<rparr>\<rparr>]),
     ae_create = (\<lambda>h obj. Inr obj), ae_write = (\<lambda>h c. None), ae_store = (\<lambda>_. sample_migration), ae_fresh = 7\<rparr>"

theorem endpoint_create_refuses_witness:
  "\<exists>pre e. run (endpoint_create (sample_api\<lparr>ae_listPods := \<lambda>h ns. Inr []\<rparr>)) \<lparr>hist = []\<rparr> =
     (Done (), \<lparr>hist = pre @ [WriteError 400 e]\<rparr>)"
  using endpoint_create_refuses [of "sample_api\<lparr>ae_listPods := \<lambda>h ns. Inr []\<rparr>" "\<lparr>hist = []\<rparr>"]
  by (auto simp: source_running_def)

text \<open>C16: the round trip of an accepted request. The object that is created has the request's name,
  replica count, source pod, destination, snapshot path and, in lower case, action; its namespace is
  \<open>test\<close>, and its selector and template are fixed ones, whatever the request has there. If the
  creation fails the client gets an error with status 400. If the API server stores the object
  unchanged, the answer carries the request's values again, with the lower-case action, the fixed
  selector, no template and an empty status, followed by an error with status 422 if it cannot be
  written.\<close>

theorem endpoint_create_roundtrip:
  assumes "snd (ae_entity A) = None" and "source_running A (hist s)" and pm: "fst (ae_entity A) = pm"
  defines "obj \<equiv> \<lparr>lm_Meta = meta0\<lparr>om_Name := lv_Name pm, om_Namespace := ''test''\<rparr>,
      lm_Spec = \<lparr>lms_Replicas = lv_Replicas pm, lms_SourcePod = lv_SourcePod pm, lms_DestHost = lv_DestHost pm,
        lms_SnapshotPath = lv_SnapshotPath pm, lms_Selector = Some \<lparr>ls_MatchLabels = Some [''livemig'' \<mapsto> ''unipi'']\<rparr>,
        lms_Template = podTemplateSpec0, lms_Action = to_lower (ae_tables A) (lv_Action pm)\<rparr>,
      lm_Status = liveMigrationStatus0\<rparr>"
    and "item \<equiv> WriteItem (pm\<lparr>lv_Action := to_lower (ae_tables A) (lv_Action pm),
        lv_Selector := Some \<lparr>ls_MatchLabels = Some [''livemig'' \<mapsto> ''unipi'']\<rparr>,
        lv_Template := podTemplateSpec0, lv_Status := Some (ae_fresh A)\<rparr>) (Some liveMigrationStatus0)"
    and "h \<equiv> hist s @ [ListPods ''test'']"
  shows "\<exists>cs. run (endpoint_create A) s = (Done (), s\<lparr>hist := h @ CreateMigration obj # cs\<rparr>) \<and>
    (case ae_create A h obj of
       Inl err \<Rightarrow> cs = [WriteError 400 \<lparr>err_Title = ''Error'', err_Details = ''Could not create object: '' @ err_text err\<rparr>]
     | Inr obj' \<Rightarrow> obj' = obj \<longrightarrow> cs = item # (if ae_write A (h @ [CreateMigration obj]) item = None then []
         else [WriteError 422 \<lparr>err_Title = ''Error'', err_Details = ''Could not write response''\<rparr>]))"
proof -
  let ?store = "\<lambda>o'. (ae_store A)(ae_fresh A := o')"
  have obj: "migration_object (requested A) = obj"
    by (simp add: obj_def migration_object_def requested_def Let_def pm api_namespace_def)
  have item: "WriteItem (from_Object (?store obj) (ae_fresh A)) (status_of (?store obj) (from_Object (?store obj) (ae_fresh A))) = item"
    by (simp add: item_def obj_def from_Object_def status_of_def)
  note run = run_create_accepted [OF assms(1,2)]
  show ?thesis
  proof (cases "ae_create A h obj")
    case (Inl err)
    then show ?thesis by (simp add: run create_object_def obj Let_def h_def api_namespace_def)
  next
    case (Inr obj')
    then show ?thesis
      using item by (auto simp: run create_object_def obj write_json_def Let_def h_def api_namespace_def simp del: not_None_eq)
  qed
qed

lemma sample_api_ok: "source_running sample_api h"
  by (simp add: source_running_def sample_api_def sample_entity_def)

theorem endpoint_create_roundtrip_witness:
  "\<exists>obj d. hist (snd (run (endpoint_create sample_api) \<lparr>hist = []\<rparr>)) =
       [ListPods ''test'', CreateMigration obj, WriteItem d (Some liveMigrationStatus0)]
     \<and> lms_SourcePod (lm_Spec obj) = ''web'' \<and> lv_SourcePod d = ''web''"
proof -
  have e: "snd (ae_entity sample_api) = None" "fst (ae_entity sample_api) = sample_entity"
    "\<And>h obj. ae_create sample_api h obj = Inr obj" "\<And>h c. ae_write sample_api h c = None"
    by (simp_all add: sample_api_def)
  show ?thesis
    using endpoint_create_roundtrip [OF e(1) sample_api_ok e(2), of "\<lparr>hist = []\<rparr>"]
    by (auto simp: e(3,4)) (auto simp: sample_entity_def)
qed

lemma list_loop_all: "fst (list_loop v rs store) = map (\<lambda>r. from_Object (\<lambda>_. r) v) rs"
  by (induction rs arbitrary: store) (simp_all add: Let_def case_prod_beta from_Object_def)

text \<open>What the encoder reads when the list is written: every status pointer is the loop variable.\<close>

lemma from_List_written:
  assumes "from_List v list store = (items, store')"
  shows "map (\<lambda>i. (i, status_of store' i)) items = map (\<lambda>r. (from_Object (\<lambda>_. r) v, Some (lm_Status (last list)))) list"
proof (cases "list = []")
  case False
  then have "items = map (\<lambda>r. from_Object (\<lambda>_. r) v) list" and "store' = store(v := last list)"
    using assms list_loop_all [of v list store] list_loop_store [of v list store] by (simp_all add: from_List_def)
  then show ?thesis by (simp add: status_of_def from_Object_def)
qed (use assms in \<open>simp add: from_List_def\<close>)

text \<open>C39: What the GET handler sends. If the objects cannot be listed it sends one error with status 404.
  Otherwise it sends one item per object, in order, with the name and the specification of that
  object; but all items point to one variable, so every item is sent with the status of the last
  object. If the answer cannot be written it sends an error with status 404.\<close>
theorem endpoint_list_answer:
  "\<exists>cs. run (endpoint_list A) s = (Done (), s\<lparr>hist := hist s @ ListMigrations # cs\<rparr>) \<and>
     (case ae_listMigrations A (hist s) of
        Inl err \<Rightarrow> cs = [WriteError 404 \<lparr>err_Title = ''Error'', err_Details = ''Could not retrieve list: '' @ err_text err\<rparr>]
      | Inr dl \<Rightarrow>
          (let answer = WriteList (map (\<lambda>r. (from_Object (\<lambda>_. r) (ae_fresh A), Some (lm_Status (last dl)))) dl) in
           cs = answer # (if ae_write A (hist s @ [ListMigrations]) answer = None then []
             else [WriteError 404 \<lparr>err_Title = ''Error'', err_Details = ''Could not list resources''\<rparr>])))"
proof (cases "ae_listMigrations A (hist s)")
  case (Inl err)
  then show ?thesis by (simp add: endpoint_list_def)
next
  case (Inr dl)
  obtain items store where l: "from_List (ae_fresh A) dl (ae_store A) = (items, store)"
    by (cases "from_List (ae_fresh A) dl (ae_store A)")
  from from_List_written [OF l] Inr show ?thesis
    by (simp add: endpoint_list_def l write_json_def Let_def del: not_None_eq)
qed

end
