(* ===== verification/Manager.thy ===== *)
theory Manager
  imports Endpoints
begin

text \<open>
  \<open>api-server/signals.go\<close>, \<open>manager.go\<close> and \<open>server.go\<close>: the error signaler, the manager of
  the API server and the server itself. \<open>manager.Start\<close> runs as a machine: the function, the
  goroutine of the cache, the goroutine of the server with the listener it starts, and the
  outside, which closes the stop channel, ends \<open>Shutdown\<close> and lets the cache and the listener fail.
\<close>

section \<open>Definitions\<close>

subsection \<open>The error signaler\<close>

record errSignaler =
  es_closed :: bool
  es_err :: "goerr option"

definition new_errSignaler :: errSignaler where
  "new_errSignaler = \<lparr>es_closed = False, es_err = None\<rparr>"

text \<open>\<open>SignalError\<close>, one step because it holds the mutex; \<open>Inl\<close> is a panic.\<close>

definition SignalError :: "goerr option \<Rightarrow> errSignaler \<Rightarrow> go_panic + errSignaler" where
  "SignalError err r =
     (if err = None then Inr r
      else if es_err r \<noteq> None then Inr r
      else
        let r = r\<lparr>es_err := err\<rparr> in
        if es_closed r then Inl CloseOfClosedChannel else Inr (r\<lparr>es_closed := True\<rparr>))"

definition signal_Error :: "errSignaler \<Rightarrow> goerr option" where
  "signal_Error r = es_err r"

definition GotError :: "errSignaler \<Rightarrow> bool" where
  "GotError r = es_closed r"

subsection \<open>The server\<close>

record apiServer =
  as_Addr :: string
  as_Path :: string
  as_Consumes :: string
  as_Produces :: string
  as_Routes :: "route list"
  as_ExposeHeaders :: "string list"
  as_AllowedDomains :: "string list"

text \<open>
  The function that the \<open>init\<close> function of \<open>server.go\<close> installs for indented answers, with the JSON
  encoder as its argument.
\<close>

definition MarshalIndent :: "(string \<Rightarrow> string \<Rightarrow> 'v \<Rightarrow> goerr + string) \<Rightarrow> 'v \<Rightarrow> string \<Rightarrow> string \<Rightarrow> string \<times> goerr option" where
  "MarshalIndent encode v pre indent =
     (case encode pre indent v of Inl err \<Rightarrow> ([], Some err) | Inr buf \<Rightarrow> (buf, None))"

definition addEndpoints :: "route list \<Rightarrow> route list" where
  "addEndpoints ws = fold (\<lambda>endpoint ws. endpoint ws) [SetupWithWS] ws"

definition newApiServer :: "64 word \<Rightarrow> string list \<Rightarrow> apiServer \<times> goerr option" where
  "newApiServer port allowedDomains =
     (\<lparr>as_Addr = '':'' @ show_int (sint port), as_Path = ''/'', as_Consumes = ''application/json'',
       as_Produces = ''application/json'', as_Routes = addEndpoints [],
       as_ExposeHeaders = [''Access-Control-Allow-Origin''], as_AllowedDomains = allowedDomains\<rparr>, None)"

definition Address :: "apiServer \<Rightarrow> string" where
  "Address as = as_Addr as"

text \<open>The listener goroutine of \<open>apiServer.Start\<close> and the function itself.\<close>

datatype listener = L_Serving | L_Send goerr | L_End

datatype server = V_None | V_Select | V_Shutdown | V_Return "goerr option" | V_End

subsection \<open>The manager\<close>

record manager =
  mg_started :: bool
  mg_internalStop_closed :: bool
  mg_port :: "64 word"
  mg_allowedDomains :: "string list"

datatype cache = K_None | K_Running | K_Failed goerr | K_End

datatype starter = T_Begin | T_WaitSync | T_Serve | T_Select | T_Return "goerr option"

record manager_run =
  mr_manager :: manager
  mr_signal :: errSignaler
  mr_starter :: starter
  mr_cache :: cache
  mr_server :: server
  mr_listener :: listener
  mr_stop :: bool
  mr_crash :: "go_panic option"

text \<open>
  \<open>return\<close> of \<open>manager.Start\<close>: the deferred \<open>close(m.internalStopper)\<close> runs.
\<close>

definition start_return :: "goerr option \<Rightarrow> manager_run \<Rightarrow> manager_run" where
  "start_return err m =
     (if mg_internalStop_closed (mr_manager m) then m\<lparr>mr_crash := Some CloseOfClosedChannel\<rparr>
      else m\<lparr>mr_manager := (mr_manager m)\<lparr>mg_internalStop_closed := True\<rparr>, mr_starter := T_Return err\<rparr>)"

definition signal_step :: "goerr option \<Rightarrow> manager_run \<Rightarrow> manager_run" where
  "signal_step err m =
     (case SignalError err (mr_signal m) of
        Inl e \<Rightarrow> m\<lparr>mr_crash := Some e\<rparr>
      | Inr s \<Rightarrow> m\<lparr>mr_signal := s\<rparr>)"

datatype start_case = OnStop | OnGotError

text \<open>
  \<open>manager.Start\<close>: a new signaler, \<open>waitForCache\<close> (which starts the cache only the first time),
  the server, and the final \<open>select\<close>.
\<close>

definition starter_step :: "start_case \<Rightarrow> manager_run \<Rightarrow> manager_run option" where
  "starter_step c m =
     (case mr_starter m of
        T_Begin \<Rightarrow>
          (let m = m\<lparr>mr_signal := new_errSignaler\<rparr> in
           Some (if mg_started (mr_manager m) then m\<lparr>mr_starter := T_Serve\<rparr>
                 else m\<lparr>mr_cache := K_Running, mr_starter := T_WaitSync\<rparr>))
      | T_WaitSync \<Rightarrow>
          Some (m\<lparr>mr_manager := (mr_manager m)\<lparr>mg_started := True\<rparr>, mr_starter := T_Serve\<rparr>)
      | T_Serve \<Rightarrow>
          (case newApiServer (mg_port (mr_manager m)) (mg_allowedDomains (mr_manager m)) of
             (srv, Some err) \<Rightarrow> Some (start_return (Some err) m)
           | (srv, None) \<Rightarrow> Some (m\<lparr>mr_server := V_Select, mr_listener := L_Serving, mr_starter := T_Select\<rparr>))
      | T_Select \<Rightarrow>
          (case c of
             OnStop \<Rightarrow> if mr_stop m then Some (start_return None m) else None
           | OnGotError \<Rightarrow> if GotError (mr_signal m) then Some (start_return (signal_Error (mr_signal m)) m) else None)
      | T_Return _ \<Rightarrow> None)"

definition cache_step :: "manager_run \<Rightarrow> manager_run option" where
  "cache_step m =
     (case mr_cache m of
        K_Failed err \<Rightarrow> Some (signal_step (Some err) (m\<lparr>mr_cache := K_End\<rparr>))
      | _ \<Rightarrow> None)"

text \<open>
  The server goroutine: the \<open>select\<close> of \<open>apiServer.Start\<close> on its stop channel, after which \<open>Shutdown\<close>
  runs until the open connections are idle, and on the error of the listener, then the report of an error.
\<close>

definition server_step :: "bool \<Rightarrow> manager_run \<Rightarrow> manager_run option" where
  "server_step on_stop m =
     (case mr_server m of
        V_Select \<Rightarrow>
          (if on_stop then
             (if mg_internalStop_closed (mr_manager m) then Some (m\<lparr>mr_server := V_Shutdown\<rparr>) else None)
           else (case mr_listener m of
                   L_Send err \<Rightarrow> Some (m\<lparr>mr_listener := L_End, mr_server := V_Return (Some err)\<rparr>)
                 | _ \<Rightarrow> None))
      | V_Return None \<Rightarrow> Some (m\<lparr>mr_server := V_End\<rparr>)
      | V_Return (Some err) \<Rightarrow> Some (signal_step (Some err) (m\<lparr>mr_server := V_End\<rparr>))
      | _ \<Rightarrow> None)"

text \<open>
  What the outside does: the listener ends (\<open>None\<close> is \<open>ErrServerClosed\<close>), \<open>Shutdown\<close> returns, the cache
  ends, stop is closed. None of these need ever happen.
\<close>

datatype manager_choice =
    Starter start_case
  | Cache
  | Server bool
  | ListenerEnds "goerr option"
  | ShutdownEnds "goerr option"
  | CacheEnds "goerr option"
  | CloseStop

definition manager_step :: "manager_choice \<Rightarrow> manager_run \<Rightarrow> manager_run option" where
  "manager_step c m =
     (if mr_crash m \<noteq> None then None
      else case c of
        Starter sc \<Rightarrow> starter_step sc m
      | Cache \<Rightarrow> cache_step m
      | Server on_stop \<Rightarrow> server_step on_stop m
      | ShutdownEnds err \<Rightarrow> if mr_server m = V_Shutdown then Some (m\<lparr>mr_server := V_Return err\<rparr>) else None
      | ListenerEnds err \<Rightarrow>
          (if mr_listener m = L_Serving \<and> mr_server m \<noteq> V_None
           then Some (m\<lparr>mr_listener := (case err of None \<Rightarrow> L_End | Some e \<Rightarrow> L_Send e)\<rparr>) else None)
      | CacheEnds err \<Rightarrow>
          (if mr_cache m = K_Running
           then Some (m\<lparr>mr_cache := (case err of None \<Rightarrow> K_End | Some e \<Rightarrow> K_Failed e)\<rparr>) else None)
      | CloseStop \<Rightarrow> Some (m\<lparr>mr_stop := True\<rparr>))"

definition manager_start :: "manager \<Rightarrow> manager_run" where
  "manager_start mg = \<lparr>mr_manager = mg, mr_signal = new_errSignaler, mr_starter = T_Begin, mr_cache = K_None,
     mr_server = V_None, mr_listener = L_Serving, mr_stop = False, mr_crash = None\<rparr>"

inductive manager_trans :: "manager_run \<Rightarrow> manager_run \<Rightarrow> bool" where
  manager_moves: "manager_step c m = Some m' \<Longrightarrow> manager_trans m m'"

inductive_simps manager_trans_iff: "manager_trans m m'"

section \<open>The signaler\<close>

text \<open>The channel is closed exactly when an error is stored.\<close>

definition signal_ok :: "errSignaler \<Rightarrow> bool" where
  "signal_ok r \<longleftrightarrow> (es_closed r \<longleftrightarrow> es_err r \<noteq> None)"

lemma signal_ok_new: "signal_ok new_errSignaler"
  by (simp add: signal_ok_def new_errSignaler_def)

lemma SignalError_ok:
  "signal_ok r \<Longrightarrow> \<exists>r'. SignalError err r = Inr r' \<and> signal_ok r' \<and>
     es_err r' = (if es_err r = None then err else es_err r)"
  by (auto simp: SignalError_def signal_ok_def Let_def)

text \<open>Any number of calls, in the order in which they get the mutex.\<close>

primrec signal_all :: "goerr option list \<Rightarrow> errSignaler \<Rightarrow> go_panic + errSignaler" where
  "signal_all [] r = Inr r"
| "signal_all (e # es) r = (case SignalError e r of Inl p \<Rightarrow> Inl p | Inr r' \<Rightarrow> signal_all es r')"

lemma signal_all_ok:
  "signal_ok r \<Longrightarrow> \<exists>r'. signal_all es r = Inr r' \<and> signal_ok r' \<and>
     es_err r' = (if es_err r \<noteq> None then es_err r
       else (case filter (\<lambda>e. e \<noteq> None) es of [] \<Rightarrow> None | e # _ \<Rightarrow> e))"
proof (induction es arbitrary: r)
  case (Cons e es)
  obtain r1 where r1: "SignalError e r = Inr r1" "signal_ok r1" "es_err r1 = (if es_err r = None then e else es_err r)"
    using SignalError_ok [OF Cons.prems] by blast
  from Cons.IH [OF r1(2)] r1 show ?case by (cases e) (auto split: if_splits)
qed simp

section \<open>The manager\<close>

text \<open>
  The coupling during a first start: the internal stop channel is closed exactly when the
  function has returned, nil is returned only after the stop channel was closed, and an error
  only if it is the one the signaler stored.
\<close>

definition manager_inv :: "manager_run \<Rightarrow> bool" where
  "manager_inv m \<longleftrightarrow> mr_crash m = None \<and> signal_ok (mr_signal m) \<and>
     (mr_starter m = T_Begin \<longrightarrow> mr_cache m = K_None) \<and>
     (mr_server m = V_None \<longleftrightarrow> mr_starter m \<in> {T_Begin, T_WaitSync, T_Serve}) \<and>
     (mg_internalStop_closed (mr_manager m) \<longleftrightarrow> (\<exists>err. mr_starter m = T_Return err)) \<and>
     (mr_starter m = T_Return None \<longrightarrow> mr_stop m) \<and>
     (\<forall>e. mr_starter m = T_Return (Some e) \<longrightarrow> es_err (mr_signal m) = Some e)"

lemma manager_inv_signal:
  assumes "manager_inv m" and "m' = m\<lparr>mr_cache := k\<rparr> \<or> mr_server m \<noteq> V_None \<and> m' = m\<lparr>mr_server := V_End\<rparr>" and "mr_starter m \<noteq> T_Begin"
  shows "manager_inv (signal_step (Some e) m')"
proof -
  have s: "mr_signal m' = mr_signal m" using assms(2) by auto
  obtain r where "SignalError (Some e) (mr_signal m) = Inr r" "signal_ok r"
    "es_err r = (if es_err (mr_signal m) = None then Some e else es_err (mr_signal m))"
    using SignalError_ok [of "mr_signal m" "Some e"] assms(1) unfolding manager_inv_def by blast
  then show ?thesis using assms s by (auto simp: signal_step_def manager_inv_def)
qed

lemma manager_inv_step:
  assumes "manager_inv m" and "manager_step c m = Some m'"
  shows "manager_inv m'"
proof (cases c)
  case (Starter sc)
  with assms show ?thesis
    by (auto simp: manager_step_def starter_step_def manager_inv_def start_return_def newApiServer_def Let_def
        signal_ok_new new_errSignaler_def GotError_def signal_Error_def signal_ok_def split: starter.splits start_case.splits if_splits)
next
  case Cache
  with assms obtain e where k: "mr_cache m = K_Failed e" and m': "m' = signal_step (Some e) (m\<lparr>mr_cache := K_End\<rparr>)"
    by (auto simp: manager_step_def cache_step_def split: cache.splits if_splits)
  have "mr_starter m \<noteq> T_Begin" using assms(1) k by (auto simp: manager_inv_def)
  then show ?thesis unfolding m' by (intro manager_inv_signal [OF assms(1), where k = K_End]) simp_all
next
  case (Server on_stop)
  show ?thesis
  proof (cases "\<exists>e. mr_server m = V_Return (Some e)")
    case True
    then obtain e where v: "mr_server m = V_Return (Some e)" by blast
    then have m': "m' = signal_step (Some e) (m\<lparr>mr_server := V_End\<rparr>)"
      using assms(2) Server by (simp add: manager_step_def server_step_def split: if_splits)
    have "mr_starter m \<noteq> T_Begin" using assms(1) v by (auto simp: manager_inv_def)
    then show ?thesis unfolding m' using v by (intro manager_inv_signal [OF assms(1)]) simp_all
  next
    case False
    with Server assms show ?thesis
      by (auto simp: manager_step_def server_step_def manager_inv_def
          split: server.splits listener.splits if_splits option.splits)
  qed
qed (use assms in \<open>auto simp: manager_step_def manager_inv_def split: if_splits\<close>)

lemma manager_inv_start: "\<not> mg_internalStop_closed mg \<Longrightarrow> manager_inv (manager_start mg)"
  by (simp add: manager_inv_def manager_start_def signal_ok_new)

interpretation manager: inductive_invariant "\<lambda>m. \<exists>mg. m = manager_start mg \<and> \<not> mg_internalStop_closed mg"
  manager_trans manager_inv
  by unfold_locales (auto simp: manager_inv_start manager_trans_iff intro: manager_inv_step)

text \<open>
  A later start: the internal stop channel is closed already, and stays closed.
\<close>

definition restarted :: "manager_run \<Rightarrow> bool" where
  "restarted m \<longleftrightarrow> mg_internalStop_closed (mr_manager m) \<and> (\<forall>err. mr_starter m \<noteq> T_Return err)"

lemma signal_step_frame [simp]:
  "mr_manager (signal_step e m) = mr_manager m" "mr_starter (signal_step e m) = mr_starter m"
  by (simp_all add: signal_step_def split: sum.split)

lemma restarted_step:
  assumes "restarted m" and "manager_step c m = Some m'"
  shows "restarted m'"
  using assms
  by (cases c)
    (auto simp: restarted_def manager_step_def starter_step_def start_return_def newApiServer_def cache_step_def
      server_step_def Let_def
      split: starter.splits start_case.splits server.splits listener.splits cache.splits option.splits if_splits)

interpretation restart: inductive_invariant
  "\<lambda>m. mr_starter m = T_Begin \<and> mg_internalStop_closed (mr_manager m)" manager_trans restarted
  by unfold_locales (simp add: restarted_def, auto simp: manager_trans_iff intro: restarted_step)

text \<open>The moves of the program's own goroutines, as against those of the outside.\<close>

fun own_move :: "manager_choice \<Rightarrow> bool" where
  "own_move (Starter _) = True"
| "own_move Cache = True"
| "own_move (Server _) = True"
| "own_move _ = False"

text \<open>How many such moves are left once \<open>Start\<close> has returned.\<close>

definition moves_left :: "manager_run \<Rightarrow> nat" where
  "moves_left m = (case mr_server m of V_Select \<Rightarrow> 2 | V_Return _ \<Rightarrow> 1 | _ \<Rightarrow> 0) +
     (case mr_cache m of K_Failed _ \<Rightarrow> 1 | _ \<Rightarrow> 0)"

lemma signal_step_others [simp]:
  "mr_server (signal_step e m) = mr_server m" "mr_cache (signal_step e m) = mr_cache m"
  "mr_listener (signal_step e m) = mr_listener m"
  by (simp_all add: signal_step_def split: sum.split)

lemma moves_left_step:
  assumes "mr_starter m = T_Return err" and "own_move c" and "manager_step c m = Some m'"
  shows "moves_left m' < moves_left m \<and> mr_starter m' = T_Return err"
  using assms
  by (cases c)
    (auto simp: manager_step_def starter_step_def cache_step_def server_step_def moves_left_def
      split: server.splits listener.splits cache.splits option.splits if_splits)

abbreviation manager_steps :: "manager_choice list \<Rightarrow> manager_run \<Rightarrow> manager_run option" where
  "manager_steps \<equiv> steps_machine manager_step"

interpretation manager_machine: machine manager_step manager_trans
  by unfold_locales (simp add: manager_trans_iff)

lemma own_moves_bounded:
  "mr_starter m = T_Return err \<Longrightarrow> list_all own_move cs \<Longrightarrow> manager_steps cs m = Some m' \<Longrightarrow>
     length cs \<le> moves_left m"
proof (induction cs arbitrary: m)
  case (Cons c cs)
  then obtain m1 where m1: "manager_step c m = Some m1" "manager_steps cs m1 = Some m'" by (auto split: option.splits)
  with Cons.prems moves_left_step [of m err c m1] Cons.IH [of m1] show ?case by simp
qed simp

text \<open>
  The listener is left behind: once the server goroutine has taken the stop case, an error of the
  listener is never received, so its goroutine waits for ever.
\<close>

definition past_select :: "manager_run \<Rightarrow> bool" where
  "past_select m \<longleftrightarrow> mr_server m \<noteq> V_None \<and> mr_server m \<noteq> V_Select \<and> (\<exists>err. mr_starter m = T_Return err)"

lemma listener_leaks_step:
  assumes "past_select m \<and> mr_listener m = L_Send e" and "manager_step c m = Some m'"
  shows "past_select m' \<and> mr_listener m' = L_Send e"
  using assms
  by (cases c)
    (auto simp: past_select_def manager_step_def starter_step_def cache_step_def server_step_def
      split: server.splits cache.splits option.splits if_splits)

interpretation leak: inductive_invariant "\<lambda>m. past_select m \<and> mr_listener m = L_Send e" manager_trans
  "\<lambda>m. past_select m \<and> mr_listener m = L_Send e" for e
  by unfold_locales (simp, metis listener_leaks_step manager_trans_iff)

section \<open>Properties\<close>

text \<open>C19: However many goroutines report errors and in whatever order they get the mutex, a
  signaler never closes its channel twice: the channel ends up closed exactly when some
  reported error is not nil, and \<open>Error\<close> then answers the first of them.\<close>
theorem SignalError_first_wins:
  "\<exists>r. signal_all es new_errSignaler = Inr r
     \<and> signal_Error r = (case filter (\<lambda>e. e \<noteq> None) es of [] \<Rightarrow> None | e # _ \<Rightarrow> e)
     \<and> (GotError r \<longleftrightarrow> (\<exists>e\<in>set es. e \<noteq> None))"
proof -
  obtain r where "signal_all es new_errSignaler = Inr r" "signal_ok r"
    and e: "es_err r = (case filter (\<lambda>e. e \<noteq> None) es of [] \<Rightarrow> None | e # _ \<Rightarrow> e)"
    using signal_all_ok [OF signal_ok_new, of es] by (auto simp: new_errSignaler_def)
  moreover have "es_err r \<noteq> None \<longleftrightarrow> (\<exists>e\<in>set es. e \<noteq> None)"
  proof (cases "filter (\<lambda>e. e \<noteq> None) es")
    case Nil
    then show ?thesis using e by (auto simp: filter_empty_conv)
  next
    case (Cons a as)
    then have "a \<in> set (filter (\<lambda>e. e \<noteq> None) es)" by simp
    then show ?thesis using e Cons by auto
  qed
  ultimately show ?thesis by (auto simp: signal_Error_def GotError_def signal_ok_def)
qed

text \<open>C17: In every state that a first \<open>Start\<close> of a manager can reach, whatever the cache, the
  listener and the stop channel do: nothing has panicked, the internal stop channel of the
  server is closed exactly when \<open>Start\<close> has returned, it has returned nil only if the stop
  channel was closed, and an error only if that is the one stored in the signaler.\<close>
theorem manager_Start_first:
  assumes "manager_trans\<^sup>*\<^sup>* (manager_start mg) m" and "\<not> mg_internalStop_closed mg"
  shows "mr_crash m = None
     \<and> (mg_internalStop_closed (mr_manager m) \<longleftrightarrow> (\<exists>err. mr_starter m = T_Return err))
     \<and> (mr_starter m = T_Return None \<longrightarrow> mr_stop m)
     \<and> (\<forall>e. mr_starter m = T_Return (Some e) \<longrightarrow> signal_Error (mr_signal m) = Some e \<and> GotError (mr_signal m))"
proof -
  have "manager_inv m" by (rule manager.invar_rtranclp [OF assms(1) manager_inv_start [OF assms(2)]])
  then show ?thesis by (auto simp: manager_inv_def signal_ok_def signal_Error_def GotError_def)
qed

definition sample_manager :: manager where
  "sample_manager = \<lparr>mg_started = False, mg_internalStop_closed = False, mg_port = 8000, mg_allowedDomains = []\<rparr>"

definition sample_failed_run :: "manager_run option" where
  "sample_failed_run = manager_steps [Starter OnStop, Starter OnStop, Starter OnStop,
     ListenerEnds (Some (ErrOther ''in use'')), Server False, Server False, Starter OnGotError]
     (manager_start sample_manager)"

lemma sample_failed_run:
  "\<exists>m. sample_failed_run = Some m \<and> mr_starter m = T_Return (Some (ErrOther ''in use''))"
  by (simp add: sample_failed_run_def sample_manager_def manager_start_def manager_step_def starter_step_def
      server_step_def signal_step_def SignalError_def new_errSignaler_def newApiServer_def GotError_def
      signal_Error_def start_return_def Let_def)

theorem manager_Start_first_witness:
  "\<exists>m. sample_failed_run = Some m \<and> mr_starter m = T_Return (Some (ErrOther ''in use''))
     \<and> mr_crash m = None \<and> mg_internalStop_closed (mr_manager m)"
proof -
  obtain m where m: "sample_failed_run = Some m" "mr_starter m = T_Return (Some (ErrOther ''in use''))"
    using sample_failed_run by blast
  have "manager_trans\<^sup>*\<^sup>* (manager_start sample_manager) m"
    using m(1) unfolding sample_failed_run_def by (rule manager_machine.steps_reachable)
  from manager_Start_first [OF this] m show ?thesis by (auto simp: sample_manager_def)
qed

text \<open>C40: A manager can be started once only. A second \<open>Start\<close>, on a manager whose internal
  stop channel the first one closed, never returns: every attempt to return from its final
  \<open>select\<close> runs the deferred \<open>close\<close> and panics, because the channel is closed already.\<close>
theorem manager_Start_again_panics:
  assumes "mr_starter m0 = T_Begin" and "mg_internalStop_closed (mr_manager m0)"
    and "manager_trans\<^sup>*\<^sup>* m0 m"
  shows "(\<forall>err. mr_starter m \<noteq> T_Return err)
     \<and> (\<forall>c m'. mr_starter m = T_Select \<and> manager_step (Starter c) m = Some m' \<longrightarrow>
          mr_crash m' = Some CloseOfClosedChannel)"
proof -
  have "restarted m"
    by (rule restart.invar_rtranclp [OF assms(3)]) (use assms in \<open>simp add: restarted_def\<close>)
  then show ?thesis
    by (auto simp: restarted_def manager_step_def starter_step_def start_return_def
        split: start_case.splits if_splits)
qed

definition sample_restart :: manager_run where
  "sample_restart = manager_start (sample_manager\<lparr>mg_started := True, mg_internalStop_closed := True\<rparr>)"

definition sample_restart_run :: "manager_run option" where
  "sample_restart_run = manager_steps [Starter OnStop, Starter OnStop, CloseStop] sample_restart"

lemma sample_restart_run:
  "\<exists>m m'. sample_restart_run = Some m \<and> mr_starter m = T_Select \<and> manager_step (Starter OnStop) m = Some m'"
  by (simp add: sample_restart_run_def sample_restart_def sample_manager_def manager_start_def manager_step_def
      starter_step_def newApiServer_def start_return_def Let_def)

theorem manager_Start_again_panics_witness:
  "\<exists>m m'. sample_restart_run = Some m \<and> manager_step (Starter OnStop) m = Some m'
     \<and> mr_crash m' = Some CloseOfClosedChannel"
proof -
  obtain m m' where m: "sample_restart_run = Some m" "mr_starter m = T_Select" "manager_step (Starter OnStop) m = Some m'"
    using sample_restart_run by blast
  have "manager_trans\<^sup>*\<^sup>* sample_restart m"
    using m(1) unfolding sample_restart_run_def by (rule manager_machine.steps_reachable)
  from manager_Start_again_panics [OF _ _ this] m show ?thesis
    by (auto simp: sample_restart_def manager_start_def)
qed

text \<open>C18: What \<open>Start\<close> leaves behind when it returns. The goroutines it started make at most three more
  moves of their own, in any order. When none of them can move, the server goroutine has ended or
  waits in \<open>Shutdown\<close> for open connections, from which it goes on to its end as soon as \<open>Shutdown\<close>
  returns; the goroutine of the cache has ended or the cache still runs, and no error of the
  cache is left unreported. A listener that then has an error to send waits for ever: nobody receives
  it, whatever happens afterwards.\<close>
theorem manager_Start_leaves:
  assumes "manager_trans\<^sup>*\<^sup>* (manager_start mg) m" and "\<not> mg_internalStop_closed mg" and "mr_starter m = T_Return err"
  shows "(\<forall>cs m'. list_all own_move cs \<and> manager_steps cs m = Some m' \<longrightarrow> length cs \<le> 3)
     \<and> ((\<forall>c. own_move c \<longrightarrow> manager_step c m = None) \<longrightarrow>
          (mr_server m = V_End \<or>
           mr_server m = V_Shutdown \<and>
             (\<forall>e. \<exists>m'. manager_steps [ShutdownEnds e, Server True] m = Some m' \<and> mr_server m' = V_End))
          \<and> mr_cache m \<in> {K_None, K_Running, K_End}
          \<and> (\<forall>e m'. mr_listener m = L_Send e \<and> manager_trans\<^sup>*\<^sup>* m m' \<longrightarrow> mr_listener m' = L_Send e))"
proof (intro conjI impI)
  show "\<forall>cs m'. list_all own_move cs \<and> manager_steps cs m = Some m' \<longrightarrow> length cs \<le> 3"
  proof (intro allI impI)
    fix cs m' assume "list_all own_move cs \<and> manager_steps cs m = Some m'"
    then have "length cs \<le> moves_left m" using own_moves_bounded [OF assms(3)] by blast
    also have "moves_left m \<le> 3" by (auto simp: moves_left_def split: server.split cache.split)
    finally show "length cs \<le> 3" .
  qed
next
  have inv: "manager_inv m" by (rule manager.invar_rtranclp [OF assms(1) manager_inv_start [OF assms(2)]])
  assume stuck: "\<forall>c. own_move c \<longrightarrow> manager_step c m = None"
  have srv: "server_step True m = None" and "cache_step m = None"
    using stuck [rule_format, of "Server True"] stuck [rule_format, of Cache] inv
    by (simp_all add: manager_step_def manager_inv_def)
  then show "mr_cache m \<in> {K_None, K_Running, K_End}" by (auto simp: cache_step_def split: cache.splits)
  have "mg_internalStop_closed (mr_manager m)" and "mr_server m \<noteq> V_None"
    using inv assms(3) by (auto simp: manager_inv_def)
  with srv have ended: "mr_server m = V_End \<or> mr_server m = V_Shutdown"
    by (auto simp: server_step_def split: server.splits option.splits)
  have "manager_steps [ShutdownEnds e, Server True] m \<noteq> None \<and>
      mr_server (the (manager_steps [ShutdownEnds e, Server True] m)) = V_End" if "mr_server m = V_Shutdown" for e
    using that inv by (cases e) (simp_all add: manager_step_def server_step_def manager_inv_def)
  with ended show "mr_server m = V_End \<or> mr_server m = V_Shutdown \<and>
      (\<forall>e. \<exists>m'. manager_steps [ShutdownEnds e, Server True] m = Some m' \<and> mr_server m' = V_End)"
    by (metis option.exhaust option.sel)
  have "past_select m" using ended assms(3) by (auto simp: past_select_def)
  then show "\<forall>e m'. mr_listener m = L_Send e \<and> manager_trans\<^sup>*\<^sup>* m m' \<longrightarrow> mr_listener m' = L_Send e"
    using leak.invar_rtranclp by blast
qed

definition sample_stopped_run :: "manager_run option" where
  "sample_stopped_run = manager_steps [Starter OnStop, Starter OnStop, Starter OnStop, CloseStop, Starter OnStop,
     Server True, ListenerEnds (Some (ErrOther ''accept''))] (manager_start sample_manager)"

lemma sample_stopped_run:
  "\<exists>m. sample_stopped_run = Some m \<and> mr_starter m = T_Return None \<and> mr_server m = V_Shutdown \<and>
     mr_cache m = K_Running \<and> mr_listener m = L_Send (ErrOther ''accept'')"
  by (simp add: sample_stopped_run_def sample_manager_def manager_start_def manager_step_def starter_step_def
      server_step_def newApiServer_def start_return_def Let_def)

theorem manager_Start_leaves_witness:
  "\<exists>m. sample_stopped_run = Some m \<and> (\<forall>c. own_move c \<longrightarrow> manager_step c m = None) \<and>
     (\<forall>m'. manager_trans\<^sup>*\<^sup>* m m' \<longrightarrow> mr_listener m' = L_Send (ErrOther ''accept''))"
proof -
  obtain m where m: "sample_stopped_run = Some m" "mr_starter m = T_Return None" "mr_server m = V_Shutdown"
    "mr_cache m = K_Running" "mr_listener m = L_Send (ErrOther ''accept'')"
    using sample_stopped_run by blast
  have "manager_trans\<^sup>*\<^sup>* (manager_start sample_manager) m"
    using m(1) unfolding sample_stopped_run_def by (rule manager_machine.steps_reachable)
  moreover have "manager_step c m = None" if "own_move c" for c
    using that m by (cases c) (simp_all add: manager_step_def starter_step_def cache_step_def server_step_def)
  ultimately show ?thesis
    using manager_Start_leaves [OF _ _ m(2), of sample_manager] m(1,5) by (auto simp: sample_manager_def)
qed

end
