(* ===== verification/File_Handler.thy ===== *)
theory File_Handler
  imports Api_Types
begin

text \<open>
  \<open>file-handler/file-handler.go\<close>: the HTTP server in the dummy pod that receives the checkpoint
  archives. The handler works on the response of its request context and makes calls of its own
  (the multipart form, the uploaded file, the file system); a deferred \<open>Close\<close> is a call made
  on every path that leaves the function after the \<open>defer\<close> statement, the last deferred first.
\<close>

section \<open>Definitions\<close>

datatype file_call =
    FormFile string
  | OpenUpload string
  | CreateFile string
  | CopyTo string
  | CloseSource string
  | CloseTarget string

record upload_env =
  up_formFile :: "file_call list \<Rightarrow> string \<Rightarrow> goerr + string"
  up_open :: "file_call list \<Rightarrow> string \<Rightarrow> goerr option"
  up_create :: "file_call list \<Rightarrow> string \<Rightarrow> goerr option"
  up_copy :: "file_call list \<Rightarrow> string \<Rightarrow> goerr option"
  up_close :: "file_call list \<Rightarrow> string \<Rightarrow> goerr option"

text \<open>The response of a request context: a handler that sets nothing answers 200.\<close>

record response =
  rsp_Status :: nat
  rsp_Body :: string

definition response0 :: response where
  "response0 = \<lparr>rsp_Status = 200, rsp_Body = []\<rparr>"

definition ctx_Error :: "string \<Rightarrow> nat \<Rightarrow> response" where
  "ctx_Error msg code = \<lparr>rsp_Status = code, rsp_Body = msg\<rparr>"

definition data_dir :: string where
  "data_dir = ''/mnt/data/''"

text \<open>The body of \<open>handleFile\<close> for a form with the file \<open>filename\<close>.\<close>

definition save_upload :: "upload_env \<Rightarrow> string \<Rightarrow> response \<Rightarrow> (file_call, 'm, response) go" where
  "save_upload U filename rsp =
     bind_go (perform (OpenUpload filename) (\<lambda>h. up_open U h filename)) (\<lambda>err.
       if err \<noteq> None then Ret (ctx_Error ''Failed to open file'' 500)
       else
         let dst = data_dir @ filename in
         bind_go (perform (CreateFile dst) (\<lambda>h. up_create U h dst)) (\<lambda>err.
           if err \<noteq> None then
             bind_go (perform (CloseSource filename) (\<lambda>h. up_close U h filename)) (\<lambda>_.
               Ret (ctx_Error ''Failed to create destination file'' 500))
           else
             bind_go (perform (CopyTo dst) (\<lambda>h. up_copy U h dst)) (\<lambda>err.
             bind_go (perform (CloseTarget dst) (\<lambda>h. up_close U h dst)) (\<lambda>_.
             bind_go (perform (CloseSource filename) (\<lambda>h. up_close U h filename)) (\<lambda>_.
               if err \<noteq> None then Ret (ctx_Error ''Failed to copy file contents'' 500) else Ret rsp)))))"

definition handleFile :: "upload_env \<Rightarrow> string \<Rightarrow> response \<Rightarrow> (file_call, 'm, response) go" where
  "handleFile U meth rsp =
     (if equal_fold meth ''POST'' then
        bind_go (perform (FormFile ''file'') (\<lambda>h. up_formFile U h ''file'')) (\<lambda>r.
          case r of
            Inl err \<Rightarrow> Ret (ctx_Error ''Unsupported path'' 400)
          | Inr filename \<Rightarrow> save_upload U filename rsp)
      else if equal_fold meth ''GET'' then Ret (rsp\<lparr>rsp_Status := 200\<rparr>)
      else Ret (ctx_Error ''Method not allowed.'' 405))"

definition file_handler :: "upload_env \<Rightarrow> string \<Rightarrow> string \<Rightarrow> (file_call, 'm, response) go" where
  "file_handler U path meth =
     (if path = ''/upload'' then handleFile U meth response0
      else Ret (ctx_Error ''not found'' 404))"

text \<open>The server that \<open>main\<close> starts with this handler.\<close>

record fileServer =
  fs_Name :: string
  fs_MaxRequestBodySize :: "64 word"
  fs_Addr :: string

definition file_server :: fileServer where
  "file_server = \<lparr>fs_Name = ''File handler'', fs_MaxRequestBodySize = 4 * 1024 * 1024 * 1024, fs_Addr = '':8080''\<rparr>"

section \<open>Calls and outcomes\<close>

text \<open>The calls of a complete upload.\<close>

definition save_calls :: "string \<Rightarrow> file_call list" where
  "save_calls filename =
     [OpenUpload filename, CreateFile (data_dir @ filename), CopyTo (data_dir @ filename),
      CloseTarget (data_dir @ filename), CloseSource filename]"

lemma run_save_upload:
  "\<exists>r cs. run (save_upload U f rsp) s = (Done r, s\<lparr>hist := hist s @ cs\<rparr>) \<and>
     (if up_open U (hist s) f \<noteq> None
      then r = ctx_Error ''Failed to open file'' 500 \<and> cs = [OpenUpload f]
      else if up_create U (hist s @ [OpenUpload f]) (data_dir @ f) \<noteq> None
      then r = ctx_Error ''Failed to create destination file'' 500 \<and>
        cs = [OpenUpload f, CreateFile (data_dir @ f), CloseSource f]
      else cs = save_calls f \<and>
        r = (if up_copy U (hist s @ take 2 (save_calls f)) (data_dir @ f) \<noteq> None
             then ctx_Error ''Failed to copy file contents'' 500 else rsp))"
  by (simp add: save_upload_def Let_def save_calls_def del: not_None_eq)

lemma world_unchanged: "s\<lparr>hist := hist s @ []\<rparr> = s"
  by simp

lemma equal_fold_GET_POST: "equal_fold meth ''POST'' \<Longrightarrow> \<not> equal_fold meth ''GET''"
  by (simp add: equal_fold_def ascii_lower_def)

section \<open>Properties\<close>

text \<open>C22: The file handler always answers. A path other than \<open>/upload\<close> gets 404 and a method
  other than POST and GET gets 405, and neither touches a file. An upload reads the form field
  \<open>file\<close>; it is answered 400 without further calls if there is none, 500 if the file cannot be
  opened, created or copied, and 200 exactly if the whole file was copied to \<open>/mnt/data/\<close>
  under the name of the upload; the files that were opened by then are closed again.\<close>
theorem file_handler_outcome:
  "\<exists>r cs. run (file_handler U path meth) s = (Done r, s\<lparr>hist := hist s @ cs\<rparr>)
     \<and> (path \<noteq> ''/upload'' \<longrightarrow> rsp_Status r = 404 \<and> cs = [])
     \<and> (path = ''/upload'' \<and> equal_fold meth ''GET'' \<longrightarrow> rsp_Status r = 200 \<and> cs = [])
     \<and> (path = ''/upload'' \<and> \<not> equal_fold meth ''GET'' \<and> \<not> equal_fold meth ''POST'' \<longrightarrow> rsp_Status r = 405 \<and> cs = [])
     \<and> (path = ''/upload'' \<and> equal_fold meth ''POST'' \<longrightarrow>
          (case up_formFile U (hist s) ''file'' of
             Inl e \<Rightarrow> rsp_Status r = 400 \<and> cs = [FormFile ''file'']
           | Inr f \<Rightarrow> rsp_Status r \<in> {200, 500}
               \<and> (rsp_Status r = 200 \<longleftrightarrow> CopyTo (data_dir @ f) \<in> set cs
                    \<and> up_copy U (hist s @ [FormFile ''file'', OpenUpload f, CreateFile (data_dir @ f)]) (data_dir @ f) = None)
               \<and> (\<forall>p. CreateFile p \<in> set cs \<longrightarrow> p = data_dir @ f \<and> CloseSource f \<in> set cs)
               \<and> (\<forall>p. CopyTo p \<in> set cs \<longrightarrow> CreateFile p \<in> set cs \<and> CloseTarget p \<in> set cs)))"
proof (cases "path = ''/upload'' \<and> equal_fold meth ''POST''")
  case False
  let ?r = "if path \<noteq> ''/upload'' then ctx_Error ''not found'' 404
    else if equal_fold meth ''GET'' then response0 else ctx_Error ''Method not allowed.'' 405"
  have "run (file_handler U path meth) s = (Done ?r, s)"
    using False by (auto simp: file_handler_def handleFile_def response0_def)
  with False show ?thesis
    by (intro exI [of _ ?r] exI [of _ "[]"]) (auto simp: world_unchanged ctx_Error_def response0_def)
next
  case True
  show ?thesis
  proof (cases "up_formFile U (hist s) ''file''")
    case (Inl e)
    with True show ?thesis
      by (simp add: file_handler_def handleFile_def equal_fold_GET_POST ctx_Error_def)
  next
    case (Inr f)
    let ?s = "s\<lparr>hist := hist s @ [FormFile ''file'']\<rparr>"
    have run: "run (file_handler U path meth) s = run (save_upload U f response0) ?s"
      using True Inr by (simp add: file_handler_def handleFile_def)
    obtain r cs where rs: "run (save_upload U f response0) ?s = (Done r, ?s\<lparr>hist := hist ?s @ cs\<rparr>)"
      and cases: "if up_open U (hist ?s) f \<noteq> None
        then r = ctx_Error ''Failed to open file'' 500 \<and> cs = [OpenUpload f]
        else if up_create U (hist ?s @ [OpenUpload f]) (data_dir @ f) \<noteq> None
        then r = ctx_Error ''Failed to create destination file'' 500 \<and>
          cs = [OpenUpload f, CreateFile (data_dir @ f), CloseSource f]
        else cs = save_calls f \<and>
          r = (if up_copy U (hist ?s @ take 2 (save_calls f)) (data_dir @ f) \<noteq> None
               then ctx_Error ''Failed to copy file contents'' 500 else response0)"
      using run_save_upload [of U f response0 ?s] by blast
    from cases show ?thesis
      using run rs Inr True
      by (intro exI [of _ r] exI [of _ "FormFile ''file'' # cs"])
        (auto simp: ctx_Error_def response0_def save_calls_def equal_fold_GET_POST split: if_splits)
  qed
qed

definition sample_upload :: upload_env where
  "sample_upload = \<lparr>up_formFile = \<lambda>h n. Inr ''checkpoint.tar'', up_open = \<lambda>h f. None, up_create = \<lambda>h f. None,
     up_copy = \<lambda>h f. None, up_close = \<lambda>h f. None\<rparr>"

theorem file_handler_outcome_witness:
  "\<exists>r s'. run (file_handler sample_upload ''/upload'' ''post'') (\<lparr>hist = []\<rparr> :: file_call world) = (Done r, s')
     \<and> rsp_Status r \<in> {200, 500}"
proof -
  have "equal_fold ''post'' ''POST''" by code_simp
  with file_handler_outcome [of sample_upload "''/upload''" "''post''" "\<lparr>hist = []\<rparr> :: file_call world"]
  show ?thesis by (auto simp: sample_upload_def)
qed

end
