(* ===== verification/Entry.thy ===== *)
theory Entry
  imports Api_Types Go_Strings
begin

text \<open>
  \<open>main.go\<close>, the entry point of the operator, with the registration of the resource types
  (\<open>api/v1alpha1/groupversion_info.go\<close> and the \<open>init\<close> functions) and \<open>SetupWithManager\<close>. The container
  storage library and the controller runtime are outside the repository: they are the
  answers of an \<open>entry_env\<close>, among them the command line flags that they register themselves.
  \<open>flag.Parse\<close> is modelled on the arguments of the process. \<open>os.Exit\<close>, also from within a library, and the
  return of \<open>main\<close> are values.
\<close>

section \<open>Definitions\<close>

record flags =
  metricsAddr :: string
  enableLeaderElection :: bool

definition default_flags :: flags where
  "default_flags = \<lparr>metricsAddr = '':8082'', enableLeaderElection = False\<rparr>"

subsection \<open>Command line\<close>

text \<open>
  \<open>flag.Parse\<close> with the error handling of the standard flag set. A registered flag is given by
  whether it is boolean, so that it needs no value, and by its setter, which may refuse a value;
  \<open>other\<close> are the flags of the libraries: whether boolean, and which values they accept.
\<close>

definition parse_bool :: "string \<Rightarrow> bool option" where
  "parse_bool v =
     (if v \<in> {''1'', ''t'', ''T'', ''true'', ''TRUE'', ''True''} then Some True
      else if v \<in> {''0'', ''f'', ''F'', ''false'', ''FALSE'', ''False''} then Some False
      else None)"

definition lookup_flag :: "(string \<Rightarrow> (bool \<times> (string \<Rightarrow> bool)) option) \<Rightarrow> string \<Rightarrow>
    (bool \<times> (string \<Rightarrow> flags \<Rightarrow> flags option)) option" where
  "lookup_flag other name =
     (if name = ''metrics-addr'' then Some (False, \<lambda>v f. Some (f\<lparr>metricsAddr := v\<rparr>))
      else if name = ''enable-leader-election''
      then Some (True, \<lambda>v f. map_option (\<lambda>b. f\<lparr>enableLeaderElection := b\<rparr>) (parse_bool v))
      else map_option (\<lambda>(is_bool, accepts). (is_bool, \<lambda>v f. if accepts v then Some f else None)) (other name))"

datatype parse_result = ParseOk flags | ParseHelp | ParseError

fun parse_flags :: "(string \<Rightarrow> (bool \<times> (string \<Rightarrow> bool)) option) \<Rightarrow> string list \<Rightarrow> flags \<Rightarrow> parse_result" where
  "parse_flags other [] f = ParseOk f"
| "parse_flags other (s # args) f =
     (if length s < 2 \<or> hd s \<noteq> CHR ''-'' \<or> s = ''--'' then ParseOk f
      else
        let name = (if s ! 1 = CHR ''-'' then drop 2 s else drop 1 s) in
        if name = [] \<or> hd name = CHR ''-'' \<or> hd name = CHR ''='' then ParseError
        else
          let (name, val) = (case str_cut ''='' name of None \<Rightarrow> (name, None) | Some (a, b) \<Rightarrow> (a, Some b)) in
          case lookup_flag other name of
            None \<Rightarrow> if name = ''help'' \<or> name = ''h'' then ParseHelp else ParseError
          | Some (is_bool, put) \<Rightarrow>
              if is_bool then
                (case put (case val of None \<Rightarrow> ''true'' | Some v \<Rightarrow> v) f of
                   None \<Rightarrow> ParseError
                 | Some f' \<Rightarrow> parse_flags other args f')
              else
                (case val of
                   Some v \<Rightarrow> (case put v f of None \<Rightarrow> ParseError | Some f' \<Rightarrow> parse_flags other args f')
                 | None \<Rightarrow>
                     (case args of
                        [] \<Rightarrow> ParseError
                      | v # args' \<Rightarrow> (case put v f of None \<Rightarrow> ParseError | Some f' \<Rightarrow> parse_flags other args' f'))))"

subsection \<open>The process\<close>

record options =
  op_LeaderElection :: bool
  op_LeaderElectionID :: string

definition manager_options :: "flags \<Rightarrow> options" where
  "manager_options f =
     \<lparr>op_LeaderElection = enableLeaderElection f, op_LeaderElectionID = ''a9d120af.livemigration.liqo.io''\<rparr>"

text \<open>A configuration and a manager are handles: what is behind them is outside.\<close>

datatype config = Config nat

datatype ctrl_manager = CtrlManager nat

record groupVersion =
  gv_Group :: string
  gv_Version :: string

definition GroupVersion :: groupVersion where
  "GroupVersion = \<lparr>gv_Group = ''livemigration.liqo.io'', gv_Version = ''v1alpha1''\<rparr>"

text \<open>The builder after the \<open>init\<close> function of the types: the objects given to \<open>Register\<close>.\<close>

definition SchemeBuilder :: "groupVersion \<times> string list" where
  "SchemeBuilder = (GroupVersion, [''LiveMigration'', ''LiveMigrationList''])"

datatype entry_call =
    AddClientGoTypes
  | AddToScheme "groupVersion \<times> string list"
  | InitReexec
  | MaybeReexec
  | GetConfig
  | NewManager "config option" options
  | EntrySleep nat
  | CompleteController ctrl_manager string
  | StartManager ctrl_manager

text \<open>
  \<open>en_initReexec\<close> and \<open>en_maybeReexec\<close>: the library ends the process with a status (the parent of a
  re-executed process ends with the status of its child), or returns.
\<close>

record entry_env =
  en_addClientGo :: "goerr option"
  en_addToScheme :: "goerr option"
  en_otherFlag :: "string \<Rightarrow> (bool \<times> (string \<Rightarrow> bool)) option"
  en_initReexec :: "nat + bool"
  en_maybeReexec :: "nat option"
  en_getConfig :: "config option \<times> goerr option"
  en_newManager :: "config option \<Rightarrow> options \<Rightarrow> ctrl_manager option \<times> goerr option"
  en_setup :: "ctrl_manager \<Rightarrow> goerr option"
  en_start :: "ctrl_manager \<Rightarrow> goerr option"

datatype exit = Returned | OsExit nat

definition pollInterval :: nat where
  "pollInterval = 30"

definition SetupWithManager :: "entry_env \<Rightarrow> ctrl_manager \<Rightarrow> (entry_call, 'm, goerr option) go" where
  "SetupWithManager N mgr = perform (CompleteController mgr ''LiveMigration'') (\<lambda>_. en_setup N mgr)"

text \<open>The \<open>init\<close> function: the errors of both registrations are dropped.\<close>

definition init_prog :: "entry_env \<Rightarrow> (entry_call, 'm, unit) go" where
  "init_prog N =
     bind_go (perform AddClientGoTypes (\<lambda>_. en_addClientGo N)) (\<lambda>_.
     bind_go (perform (AddToScheme SchemeBuilder) (\<lambda>_. en_addToScheme N)) (\<lambda>_. Ret ()))"

definition main_prog :: "entry_env \<Rightarrow> string list \<Rightarrow> (entry_call, 'm, exit) go" where
  "main_prog N args =
     (case parse_flags (en_otherFlag N) args default_flags of
        ParseHelp \<Rightarrow> Ret (OsExit 0)
      | ParseError \<Rightarrow> Ret (OsExit 2)
      | ParseOk f \<Rightarrow>
          bind_go (perform InitReexec (\<lambda>_. en_initReexec N)) (\<lambda>reexec.
            case reexec of
              Inl status \<Rightarrow> Ret (OsExit status)
            | Inr True \<Rightarrow> Ret Returned
            | Inr False \<Rightarrow>
                bind_go (perform MaybeReexec (\<lambda>_. en_maybeReexec N)) (\<lambda>child.
                case child of
                  Some status \<Rightarrow> Ret (OsExit status)
                | None \<Rightarrow>
                    bind_go (perform GetConfig (\<lambda>_. en_getConfig N)) (\<lambda>(configs, _).
                    bind_go (perform (NewManager configs (manager_options f))
                        (\<lambda>_. en_newManager N configs (manager_options f))) (\<lambda>(mgr, err).
                    bind_go (if err \<noteq> None then perform (EntrySleep pollInterval) (\<lambda>_. ()) else Ret ()) (\<lambda>_.
                    bind_go (deref mgr) (\<lambda>m.
                    bind_go (SetupWithManager N m) (\<lambda>err.
                      if err \<noteq> None then Ret (OsExit 1)
                      else
                        bind_go (perform (StartManager m) (\<lambda>_. en_start N m)) (\<lambda>err.
                          if err \<noteq> None then Ret (OsExit 1) else Ret Returned)))))))))"

text \<open>The process: Go runs \<open>init\<close> before \<open>main\<close>.\<close>

definition operator_process :: "entry_env \<Rightarrow> string list \<Rightarrow> (entry_call, 'm, exit) go" where
  "operator_process N args = bind_go (init_prog N) (\<lambda>_. main_prog N args)"

section \<open>Properties\<close>

text \<open>What \<open>ctrl.NewManager\<close> promises: a manager or an error.\<close>

definition manager_or_error :: "entry_env \<Rightarrow> bool" where
  "manager_or_error N \<longleftrightarrow> (\<forall>c opts. fst (en_newManager N c opts) = None \<longleftrightarrow> snd (en_newManager N c opts) \<noteq> None)"

text \<open>The argument that \<open>config/manager/manager.yaml\<close> passes is not one of the operator's flags.\<close>

lemma leader_elect_unknown:
  "en_otherFlag N ''leader-elect'' = None \<Longrightarrow>
     run (main_prog N [''--leader-elect'']) s = (Done (OsExit 2), s)"
  by (simp add: main_prog_def lookup_flag_def)

text \<open>C34: How the operator process ends, and after which calls. First it registers the built-in types and
  the two types of its own API group; a failure of that is not noticed. If the command line asks
  for help the process exits with status 0, and with status 2 if it is malformed or has an unknown
  flag. The container storage library may end the process with a status of its own, and if it
  has run a re-executed function, \<open>main\<close> returns. Otherwise the manager is created with leader
  election as the flag says; a missing configuration is only logged. If the manager cannot be
  created, the process sleeps 30 seconds and then dereferences the nil manager: it panics.
  Otherwise the controller for \<open>LiveMigration\<close> is registered, the manager is started only if that
  succeeded, and the process exits with status 1 exactly if one of the two failed.\<close>
theorem operator_process_outcome:
  fixes s :: "(entry_call, 'm) world_scheme" and args :: "string list"
  assumes "manager_or_error N"
  defines "res \<equiv> fst (run (operator_process N args) s)"
  shows "\<exists>cs. snd (run (operator_process N args) s) = s\<lparr>hist := hist s @ [AddClientGoTypes,
      AddToScheme (\<lparr>gv_Group = ''livemigration.liqo.io'', gv_Version = ''v1alpha1''\<rparr>,
        [''LiveMigration'', ''LiveMigrationList''])] @ cs\<rparr> \<and>
    (case parse_flags (en_otherFlag N) args \<lparr>metricsAddr = '':8082'', enableLeaderElection = False\<rparr> of
       ParseHelp \<Rightarrow> res = Done (OsExit 0) \<and> cs = []
     | ParseError \<Rightarrow> res = Done (OsExit 2) \<and> cs = []
     | ParseOk f \<Rightarrow>
         (case en_initReexec N of
            Inl status \<Rightarrow> res = Done (OsExit status) \<and> cs = [InitReexec]
          | Inr True \<Rightarrow> res = Done Returned \<and> cs = [InitReexec]
          | Inr False \<Rightarrow>
              (case en_maybeReexec N of
                 Some status \<Rightarrow> res = Done (OsExit status) \<and> cs = [InitReexec, MaybeReexec]
               | None \<Rightarrow>
                   (let config = fst (en_getConfig N);
                        opts = \<lparr>op_LeaderElection = enableLeaderElection f,
                                op_LeaderElectionID = ''a9d120af.livemigration.liqo.io''\<rparr>;
                        created = [InitReexec, MaybeReexec, GetConfig, NewManager config opts]
                    in case fst (en_newManager N config opts) of
                         None \<Rightarrow> res = Panicked NilDereference \<and> cs = created @ [EntrySleep 30]
                       | Some m \<Rightarrow>
                           res = Done (if en_setup N m \<noteq> None \<or> en_start N m \<noteq> None then OsExit 1 else Returned) \<and>
                           cs = created @ CompleteController m ''LiveMigration'' #
                             (if en_setup N m = None then [StartManager m] else [])))))"
proof -
  have mgr: "(fst (en_newManager N c opts) = None) = (snd (en_newManager N c opts) \<noteq> None)" for c opts
    using assms(1) unfolding manager_or_error_def by blast
  show ?thesis
  proof (cases "parse_flags (en_otherFlag N) args default_flags")
    case (ParseOk f)
    let ?nm = "en_newManager N (fst (en_getConfig N)) (manager_options f)"
    have "fst ?nm = None \<longleftrightarrow> snd ?nm \<noteq> None" by (rule mgr)
    with ParseOk show ?thesis
      by (cases "fst ?nm")
        (auto simp: res_def operator_process_def init_prog_def main_prog_def SetupWithManager_def Let_def
          pollInterval_def SchemeBuilder_def GroupVersion_def case_prod_beta default_flags_def manager_options_def
          split: sum.split bool.split option.split)
  qed (simp_all add: res_def operator_process_def init_prog_def main_prog_def SchemeBuilder_def GroupVersion_def default_flags_def)
qed

definition sample_entry :: entry_env where
  "sample_entry = \<lparr>en_addClientGo = None, en_addToScheme = None, en_otherFlag = \<lambda>_. None,
     en_initReexec = Inr False, en_maybeReexec = None,
     en_getConfig = (None, Some (ErrOther ''no kubeconfig'')),
     en_newManager = \<lambda>c opts. case c of None \<Rightarrow> (None, Some (ErrOther ''must specify Config''))
       | Some _ \<Rightarrow> (Some (CtrlManager 0), None),
     en_setup = \<lambda>m. None, en_start = \<lambda>m. None\<rparr>"

theorem operator_process_outcome_witness:
  "fst (run (operator_process sample_entry [''-enable-leader-election=false'']) (\<lparr>hist = []\<rparr> :: entry_call world)) =
     Panicked NilDereference"
proof -
  have "manager_or_error sample_entry"
    by (auto simp: manager_or_error_def sample_entry_def split: option.splits)
  moreover have "parse_flags (\<lambda>_. None) [''-enable-leader-election=false''] \<lparr>metricsAddr = '':8082'', enableLeaderElection = False\<rparr> =
      ParseOk \<lparr>metricsAddr = '':8082'', enableLeaderElection = False\<rparr>"
    by (simp add: lookup_flag_def parse_bool_def)
  ultimately show ?thesis
    using operator_process_outcome [of sample_entry "[''-enable-leader-election=false'']" "\<lparr>hist = []\<rparr> :: entry_call world"]
    by (simp add: sample_entry_def Let_def)
qed

end
