(* ===== verification/Deep_Copy.thy ===== *)
theory Deep_Copy
  imports Api_Types
begin

text \<open>
  \<open>api/v1alpha1/zz_generated.deepcopy.go\<close>: deep copies of the resource types. What matters of
  them is aliasing, so they work on an explicit heap: structs hold addresses where the Go types
  have pointers, slices or maps. The copying methods of the embedded Kubernetes types
  (\<open>ObjectMeta\<close>, \<open>ListMeta\<close>, \<open>LabelSelector\<close>, \<open>PodTemplateSpec\<close>) are outside the repository: they are
  arguments, with the type of the struct, and what is required of them is the contract
  \<open>deep_copier\<close>, which the methods of this file are then shown to fulfil themselves.
\<close>

section \<open>Definitions\<close>

subsection \<open>The heap\<close>

type_synonym addr = nat

text \<open>Every address below \<open>hp_next\<close> is allocated. Typed memory: a cell has a place for each type.\<close>

record 'c heap =
  hp_cell :: "addr \<Rightarrow> 'c"
  hp_next :: addr

definition alloc :: "'c heap \<Rightarrow> addr \<times> 'c heap" where
  "alloc h = (hp_next h, h\<lparr>hp_next := Suc (hp_next h)\<rparr>)"

definition store_at :: "addr \<Rightarrow> ('c \<Rightarrow> 'c) \<Rightarrow> 'c heap \<Rightarrow> 'c heap" where
  "store_at a u h = h\<lparr>hp_cell := (hp_cell h)(a := u (hp_cell h a))\<rparr>"

subsection \<open>The structs\<close>

text \<open>
  The same records serve for the memory representation, where \<open>'s\<close> and \<open>'i\<close> are addresses and
  \<open>'m\<close>, \<open>'l\<close>, \<open>'t\<close> the embedded structs, and for the value that a reader sees behind them.
\<close>

record ('s, 't) specStruct =
  sp_Replicas :: "64 word"
  sp_SourcePod :: string
  sp_DestHost :: string
  sp_SnapshotPath :: string
  sp_Selector :: "'s option"
  sp_Template :: 't
  sp_Action :: string

record ('m, 's, 't) migrationStruct =
  mi_TypeMeta :: "string \<times> string"
  mi_ObjectMeta :: 'm
  mi_Spec :: "('s, 't) specStruct"
  mi_Status :: liveMigrationStatus

record ('l, 'i) listStruct =
  li_TypeMeta :: "string \<times> string"
  li_ListMeta :: 'l
  li_Items :: "'i option"

record ('m, 'l, 's, 't, 'x) cell =
  cl_migration :: "('m, addr, 't) migrationStruct"
  cl_list :: "('l, addr) listStruct"
  cl_spec :: "(addr, 't) specStruct"
  cl_status :: liveMigrationStatus
  cl_selector :: 's
  cl_array :: "('m, addr, 't) migrationStruct list"
  cl_other :: 'x

type_synonym ('m, 'l, 's, 't, 'x) memory = "('m, 'l, 's, 't, 'x) cell heap"

text \<open>
  A way to copy values of a type: the method, the addresses that a value reaches in a heap, and
  what a reader sees of it. The methods below use only \<open>cp_copy\<close>.
\<close>

record ('v, 'c, 'w) copier =
  cp_copy :: "'v \<Rightarrow> 'c heap \<Rightarrow> 'v \<times> 'c heap"
  cp_refs :: "'c heap \<Rightarrow> 'v \<Rightarrow> addr set"
  cp_view :: "'c heap \<Rightarrow> 'v \<Rightarrow> 'w"

record ('m, 'l, 's, 't, 'x, 'vm, 'vl, 'vs, 'vt) externals =
  ex_ObjectMeta :: "('m, ('m, 'l, 's, 't, 'x) cell, 'vm) copier"
  ex_ListMeta :: "('l, ('m, 'l, 's, 't, 'x) cell, 'vl) copier"
  ex_LabelSelector :: "('s, ('m, 'l, 's, 't, 'x) cell, 'vs) copier"
  ex_PodTemplateSpec :: "('t, ('m, 'l, 's, 't, 'x) cell, 'vt) copier"

subsection \<open>The methods\<close>

text \<open>
  \<open>DeepCopyInto\<close> of a struct, as the value that \<open>*out\<close> has in the end: it starts as the shallow copy
  \<open>*out = *in\<close>, so nothing remains of what \<open>*out\<close> was before.
\<close>

definition Status_DeepCopyInto :: "liveMigrationStatus \<Rightarrow> 'c heap \<Rightarrow> liveMigrationStatus \<times> 'c heap" where
  "Status_DeepCopyInto src h = (src, h)"

definition Spec_DeepCopyInto :: "('m, 'l, 's, 't, 'x, 'vm, 'vl, 'vs, 'vt) externals \<Rightarrow> (addr, 't) specStruct \<Rightarrow>
    ('m, 'l, 's, 't, 'x) memory \<Rightarrow> (addr, 't) specStruct \<times> ('m, 'l, 's, 't, 'x) memory" where
  "Spec_DeepCopyInto X src h =
     (let out = src;
          (out, h) =
            (case sp_Selector src of
               None \<Rightarrow> (out, h)
             | Some p \<Rightarrow>
                 (let (q, h) = alloc h;
                      (sel, h) = cp_copy (ex_LabelSelector X) (cl_selector (hp_cell h p)) h
                  in (out\<lparr>sp_Selector := Some q\<rparr>, store_at q (\<lambda>c. c\<lparr>cl_selector := sel\<rparr>) h)));
          (t, h) = cp_copy (ex_PodTemplateSpec X) (sp_Template src) h
      in (out\<lparr>sp_Template := t\<rparr>, h))"

definition Migration_DeepCopyInto :: "('m, 'l, 's, 't, 'x, 'vm, 'vl, 'vs, 'vt) externals \<Rightarrow> ('m, addr, 't) migrationStruct \<Rightarrow>
    ('m, 'l, 's, 't, 'x) memory \<Rightarrow> ('m, addr, 't) migrationStruct \<times> ('m, 'l, 's, 't, 'x) memory" where
  "Migration_DeepCopyInto X src h =
     (let out = src;
          out = out\<lparr>mi_TypeMeta := mi_TypeMeta src\<rparr>;
          (m, h) = cp_copy (ex_ObjectMeta X) (mi_ObjectMeta src) h;
          out = out\<lparr>mi_ObjectMeta := m\<rparr>;
          (sp, h) = Spec_DeepCopyInto X (mi_Spec src) h;
          out = out\<lparr>mi_Spec := sp\<rparr>;
          out = out\<lparr>mi_Status := mi_Status src\<rparr>
      in (out, h))"

text \<open>The loop over the items: the elements of the new array, in order.\<close>

primrec copy_items :: "('m, 'l, 's, 't, 'x, 'vm, 'vl, 'vs, 'vt) externals \<Rightarrow> ('m, addr, 't) migrationStruct list \<Rightarrow>
    ('m, 'l, 's, 't, 'x) memory \<Rightarrow> ('m, addr, 't) migrationStruct list \<times> ('m, 'l, 's, 't, 'x) memory" where
  "copy_items X [] h = ([], h)"
| "copy_items X (src # srcs) h =
     (let (out, h) = Migration_DeepCopyInto X src h;
          (outs, h) = copy_items X srcs h
      in (out # outs, h))"

definition List_DeepCopyInto :: "('m, 'l, 's, 't, 'x, 'vm, 'vl, 'vs, 'vt) externals \<Rightarrow> ('l, addr) listStruct \<Rightarrow>
    ('m, 'l, 's, 't, 'x) memory \<Rightarrow> ('l, addr) listStruct \<times> ('m, 'l, 's, 't, 'x) memory" where
  "List_DeepCopyInto X src h =
     (let out = src;
          out = out\<lparr>li_TypeMeta := li_TypeMeta src\<rparr>;
          (m, h) = cp_copy (ex_ListMeta X) (li_ListMeta src) h;
          out = out\<lparr>li_ListMeta := m\<rparr>
      in case li_Items src of
           None \<Rightarrow> (out, h)
         | Some a \<Rightarrow>
             (let (b, h) = alloc h;
                  (items, h) = copy_items X (cl_array (hp_cell h a)) h
              in (out\<lparr>li_Items := Some b\<rparr>, store_at b (\<lambda>c. c\<lparr>cl_array := items\<rparr>) h)))"

text \<open>The \<open>DeepCopy\<close> methods, on pointers.\<close>

definition Migration_DeepCopy :: "('m, 'l, 's, 't, 'x, 'vm, 'vl, 'vs, 'vt) externals \<Rightarrow> addr option \<Rightarrow>
    ('m, 'l, 's, 't, 'x) memory \<Rightarrow> addr option \<times> ('m, 'l, 's, 't, 'x) memory" where
  "Migration_DeepCopy X src h =
     (case src of
        None \<Rightarrow> (None, h)
      | Some a \<Rightarrow>
          (let (out, h) = alloc h;
               (v, h) = Migration_DeepCopyInto X (cl_migration (hp_cell h a)) h
           in (Some out, store_at out (\<lambda>c. c\<lparr>cl_migration := v\<rparr>) h)))"

definition List_DeepCopy :: "('m, 'l, 's, 't, 'x, 'vm, 'vl, 'vs, 'vt) externals \<Rightarrow> addr option \<Rightarrow>
    ('m, 'l, 's, 't, 'x) memory \<Rightarrow> addr option \<times> ('m, 'l, 's, 't, 'x) memory" where
  "List_DeepCopy X src h =
     (case src of
        None \<Rightarrow> (None, h)
      | Some a \<Rightarrow>
          (let (out, h) = alloc h;
               (v, h) = List_DeepCopyInto X (cl_list (hp_cell h a)) h
           in (Some out, store_at out (\<lambda>c. c\<lparr>cl_list := v\<rparr>) h)))"

definition Spec_DeepCopy :: "('m, 'l, 's, 't, 'x, 'vm, 'vl, 'vs, 'vt) externals \<Rightarrow> addr option \<Rightarrow>
    ('m, 'l, 's, 't, 'x) memory \<Rightarrow> addr option \<times> ('m, 'l, 's, 't, 'x) memory" where
  "Spec_DeepCopy X src h =
     (case src of
        None \<Rightarrow> (None, h)
      | Some a \<Rightarrow>
          (let (out, h) = alloc h;
               (v, h) = Spec_DeepCopyInto X (cl_spec (hp_cell h a)) h
           in (Some out, store_at out (\<lambda>c. c\<lparr>cl_spec := v\<rparr>) h)))"

definition Status_DeepCopy :: "addr option \<Rightarrow> ('m, 'l, 's, 't, 'x) memory \<Rightarrow> addr option \<times> ('m, 'l, 's, 't, 'x) memory" where
  "Status_DeepCopy src h =
     (case src of
        None \<Rightarrow> (None, h)
      | Some a \<Rightarrow>
          (let (out, h) = alloc h;
               (v, h) = Status_DeepCopyInto (cl_status (hp_cell h a)) h
           in (Some out, store_at out (\<lambda>c. c\<lparr>cl_status := v\<rparr>) h)))"

text \<open>\<open>DeepCopyObject\<close>: the pointer as a value of an interface, which is nil if the pointer is.\<close>

datatype runtime_Object = LiveMigrationObject addr | LiveMigrationListObject addr

definition Migration_DeepCopyObject :: "('m, 'l, 's, 't, 'x, 'vm, 'vl, 'vs, 'vt) externals \<Rightarrow> addr option \<Rightarrow>
    ('m, 'l, 's, 't, 'x) memory \<Rightarrow> runtime_Object option \<times> ('m, 'l, 's, 't, 'x) memory" where
  "Migration_DeepCopyObject X src h =
     (case Migration_DeepCopy X src h of
        (Some c, h) \<Rightarrow> (Some (LiveMigrationObject c), h)
      | (None, h) \<Rightarrow> (None, h))"

definition List_DeepCopyObject :: "('m, 'l, 's, 't, 'x, 'vm, 'vl, 'vs, 'vt) externals \<Rightarrow> addr option \<Rightarrow>
    ('m, 'l, 's, 't, 'x) memory \<Rightarrow> runtime_Object option \<times> ('m, 'l, 's, 't, 'x) memory" where
  "List_DeepCopyObject X src h =
     (case List_DeepCopy X src h of
        (Some c, h) \<Rightarrow> (Some (LiveMigrationListObject c), h)
      | (None, h) \<Rightarrow> (None, h))"

section \<open>The contract of a deep copy\<close>

text \<open>A heap grows: allocated cells keep their contents.\<close>

definition grows :: "'c heap \<Rightarrow> 'c heap \<Rightarrow> bool" where
  "grows h h' \<longleftrightarrow> hp_next h \<le> hp_next h' \<and> (\<forall>a<hp_next h. hp_cell h' a = hp_cell h a)"

lemma grows_refl [simp, intro]: "grows h h"
  by (simp add: grows_def)

lemma grows_trans [trans]: "grows h1 h2 \<Longrightarrow> grows h2 h3 \<Longrightarrow> grows h1 h3"
  by (auto simp: grows_def)

lemma grows_alloc: "alloc h = (a, h') \<Longrightarrow> grows h h' \<and> a = hp_next h \<and> hp_next h' = Suc (hp_next h) \<and> hp_cell h' = hp_cell h"
  by (auto simp: alloc_def grows_def)

locale deep_copier =
  fixes copy :: "'v \<Rightarrow> 'c heap \<Rightarrow> 'v \<times> 'c heap"
    and refs :: "'c heap \<Rightarrow> 'v \<Rightarrow> addr set"
    and view :: "'c heap \<Rightarrow> 'v \<Rightarrow> 'w"
  assumes copy_grows: "refs h v \<subseteq> {..<hp_next h} \<Longrightarrow> copy v h = (v', h') \<Longrightarrow> grows h h'"
    and copy_view: "refs h v \<subseteq> {..<hp_next h} \<Longrightarrow> copy v h = (v', h') \<Longrightarrow> view h' v' = view h v"
    and copy_fresh: "refs h v \<subseteq> {..<hp_next h} \<Longrightarrow> copy v h = (v', h') \<Longrightarrow> refs h' v' \<subseteq> {hp_next h..<hp_next h'}"
    and refs_local: "\<forall>a\<in>refs h v. hp_cell h' a = hp_cell h a \<Longrightarrow> refs h' v = refs h v"
    and view_local: "\<forall>a\<in>refs h v. hp_cell h' a = hp_cell h a \<Longrightarrow> view h' v = view h v"
begin

lemma grows_local:
  assumes "refs h v \<subseteq> {..<hp_next h}" and "grows h h'"
  shows "refs h' v = refs h v" and "view h' v = view h v" and "refs h' v \<subseteq> {..<hp_next h'}"
proof -
  have a: "\<forall>a\<in>refs h v. hp_cell h' a = hp_cell h a" using assms by (auto simp: grows_def)
  show "refs h' v = refs h v" and "view h' v = view h v" using a by (rule refs_local, rule view_local)
  then show "refs h' v \<subseteq> {..<hp_next h'}" using assms by (fastforce simp: grows_def)
qed

text \<open>Later writes behind the original do not show in the copy, and the other way round.\<close>

lemma copy_independent:
  assumes "refs h v \<subseteq> {..<hp_next h}" and "copy v h = (v', h')"
    and "\<And>a. a \<notin> refs h v \<Longrightarrow> hp_cell h2 a = hp_cell h' a"
  shows "view h2 v' = view h v"
proof -
  have "hp_cell h2 a = hp_cell h' a" if "a \<in> refs h' v'" for a
  proof (rule assms(3))
    have "hp_next h \<le> a" using that copy_fresh [OF assms(1,2)] by auto
    then show "a \<notin> refs h v" using assms(1) by auto
  qed
  then have "view h2 v' = view h' v'" by (intro view_local) blast
  then show ?thesis using copy_view [OF assms(1,2)] by simp
qed

lemma original_independent:
  assumes "refs h v \<subseteq> {..<hp_next h}" and "copy v h = (v', h')"
    and "\<And>a. a \<notin> refs h' v' \<Longrightarrow> hp_cell h2 a = hp_cell h' a"
  shows "view h2 v = view h v"
proof -
  have "hp_cell h2 a = hp_cell h a" if "a \<in> refs h v" for a
  proof -
    have a: "a < hp_next h" using that assms(1) by auto
    then have "a \<notin> refs h' v'" using copy_fresh [OF assms(1,2)] by auto
    then have "hp_cell h2 a = hp_cell h' a" by (rule assms(3))
    also have "\<dots> = hp_cell h a" using copy_grows [OF assms(1,2)] a by (simp add: grows_def)
    finally show ?thesis .
  qed
  then show ?thesis by (intro view_local) blast
qed

end

text \<open>The status holds no address: it is copied by the assignment.\<close>

interpretation status: deep_copier Status_DeepCopyInto "\<lambda>h v. {}" "\<lambda>h v. v"
  by unfold_locales (auto simp: Status_DeepCopyInto_def)

section \<open>Copying the parts of a value\<close>

subsection \<open>Two parts\<close>

definition copy_pair :: "('v \<Rightarrow> 'c heap \<Rightarrow> 'v \<times> 'c heap) \<Rightarrow> ('w \<Rightarrow> 'c heap \<Rightarrow> 'w \<times> 'c heap) \<Rightarrow>
    'v \<times> 'w \<Rightarrow> 'c heap \<Rightarrow> ('v \<times> 'w) \<times> 'c heap" where
  "copy_pair c1 c2 p h = (let (x, h1) = c1 (fst p) h; (y, h2) = c2 (snd p) h1 in ((x, y), h2))"

lemma deep_copier_pair:
  assumes "deep_copier c1 r1 v1" and "deep_copier c2 r2 v2"
  shows "deep_copier (copy_pair c1 c2) (\<lambda>h p. r1 h (fst p) \<union> r2 h (snd p)) (\<lambda>h p. (v1 h (fst p), v2 h (snd p)))"
proof -
  have *: "grows h h' \<and> (v1 h' (fst p'), v2 h' (snd p')) = (v1 h (fst p), v2 h (snd p)) \<and>
      r1 h' (fst p') \<union> r2 h' (snd p') \<subseteq> {hp_next h..<hp_next h'}"
    if closed: "r1 h (fst p) \<union> r2 h (snd p) \<subseteq> {..<hp_next h}" and copy: "copy_pair c1 c2 p h = (p', h')" for h p p' h'
  proof -
    obtain x h1 y where c1: "c1 (fst p) h = (x, h1)" and c2: "c2 (snd p) h1 = (y, h')" and p': "p' = (x, y)"
      using copy by (auto simp: copy_pair_def split: prod.splits)
    have cl: "r1 h (fst p) \<subseteq> {..<hp_next h}" "r2 h (snd p) \<subseteq> {..<hp_next h}" using closed by auto
    note one = deep_copier.copy_grows [OF assms(1) cl(1) c1] deep_copier.copy_view [OF assms(1) cl(1) c1]
      deep_copier.copy_fresh [OF assms(1) cl(1) c1]
    note snd_local = deep_copier.grows_local [OF assms(2) cl(2) one(1)]
    note two = deep_copier.copy_grows [OF assms(2) snd_local(3) c2] deep_copier.copy_view [OF assms(2) snd_local(3) c2]
      deep_copier.copy_fresh [OF assms(2) snd_local(3) c2]
    have "r1 h1 x \<subseteq> {..<hp_next h1}" using one(3) by auto
    note fst_local = deep_copier.grows_local [OF assms(1) this two(1)]
    have le: "hp_next h \<le> hp_next h1" "hp_next h1 \<le> hp_next h'" using one(1) two(1) by (auto simp: grows_def)
    have "r1 h' x \<subseteq> {hp_next h..<hp_next h'}"
      unfolding fst_local(1) by (rule order_trans [OF one(3)]) (simp add: le)
    moreover have "r2 h' y \<subseteq> {hp_next h..<hp_next h'}" by (rule order_trans [OF two(3)]) (simp add: le)
    ultimately show ?thesis
      using one(2) two(2) fst_local(2) snd_local(2) p' grows_trans [OF one(1) two(1)] by simp
  qed
  show ?thesis
  proof (unfold_locales, goal_cases)
    case (4 h v h')
    then show ?case using deep_copier.refs_local [OF assms(1)] deep_copier.refs_local [OF assms(2)] by blast
  next
    case (5 h v h')
    then show ?case using deep_copier.view_local [OF assms(1)] deep_copier.view_local [OF assms(2)] by blast
  qed (use * in blast)+
qed

subsection \<open>The value behind a pointer\<close>

definition copy_pointer :: "('c \<Rightarrow> 'v) \<Rightarrow> ('v \<Rightarrow> 'c \<Rightarrow> 'c) \<Rightarrow> ('v \<Rightarrow> 'c heap \<Rightarrow> 'v \<times> 'c heap) \<Rightarrow>
    addr option \<Rightarrow> 'c heap \<Rightarrow> addr option \<times> 'c heap" where
  "copy_pointer get upd copy p h =
     (case p of
        None \<Rightarrow> (None, h)
      | Some a \<Rightarrow>
          (let (q, h) = alloc h; (v, h) = copy (get (hp_cell h a)) h in (Some q, store_at q (upd v) h)))"

definition pointer_refs :: "('c \<Rightarrow> 'v) \<Rightarrow> ('c heap \<Rightarrow> 'v \<Rightarrow> addr set) \<Rightarrow> 'c heap \<Rightarrow> addr option \<Rightarrow> addr set" where
  "pointer_refs get refs h p = (case p of None \<Rightarrow> {} | Some a \<Rightarrow> insert a (refs h (get (hp_cell h a))))"

definition pointer_view :: "('c \<Rightarrow> 'v) \<Rightarrow> ('c heap \<Rightarrow> 'v \<Rightarrow> 'w) \<Rightarrow> 'c heap \<Rightarrow> addr option \<Rightarrow> 'w option" where
  "pointer_view get view h p = map_option (\<lambda>a. view h (get (hp_cell h a))) p"

lemma pointer_simps [simp]:
  "copy_pointer get upd copy None h = (None, h)"
  "pointer_refs get refs h None = {}"
  "pointer_refs get refs h (Some a) = insert a (refs h (get (hp_cell h a)))"
  "pointer_view get view h None = None"
  "pointer_view get view h (Some a) = Some (view h (get (hp_cell h a)))"
  by (simp_all add: copy_pointer_def pointer_refs_def pointer_view_def)

lemma store_at_simps [simp]:
  "hp_next (store_at a u h) = hp_next h"
  "hp_cell (store_at a u h) b = (if b = a then u (hp_cell h a) else hp_cell h b)"
  by (simp_all add: store_at_def)

lemma copy_pointer_Some:
  assumes dc: "deep_copier copy refs view" and get_set: "\<And>v c. get (upd v c) = v"
    and closed: "pointer_refs get refs h (Some a) \<subseteq> {..<hp_next h}"
    and copy: "copy_pointer get upd copy (Some a) h = (p', h')"
  shows "\<exists>v h2. copy (get (hp_cell h a)) (snd (alloc h)) = (v, h2) \<and> p' = Some (hp_next h) \<and>
      get (hp_cell h' (hp_next h)) = v \<and> grows h h' \<and> view h' v = view h (get (hp_cell h a)) \<and>
      refs h' v \<subseteq> {Suc (hp_next h)..<hp_next h'} \<and> hp_next h < hp_next h'"
proof -
  obtain h1 where al: "alloc h = (hp_next h, h1)" and h1: "grows h h1" "hp_next h1 = Suc (hp_next h)" "hp_cell h1 = hp_cell h"
    using grows_alloc by (cases "alloc h") blast
  let ?x = "get (hp_cell h a)"
  obtain v h2 where c: "copy ?x h1 = (v, h2)" and p': "p' = Some (hp_next h)" and h': "h' = store_at (hp_next h) (upd v) h2"
    using copy al h1(3) by (auto simp: copy_pointer_def split: prod.splits)
  have cl: "refs h ?x \<subseteq> {..<hp_next h}" using closed by simp
  note x = deep_copier.grows_local [OF dc cl h1(1)]
  note two = deep_copier.copy_grows [OF dc x(3) c] deep_copier.copy_view [OF dc x(3) c] deep_copier.copy_fresh [OF dc x(3) c]
  have loc: "\<forall>b\<in>refs h2 v. hp_cell h' b = hp_cell h2 b" using two(3) h1(2) h' by auto
  have "refs h' v = refs h2 v" by (rule deep_copier.refs_local [OF dc loc])
  then have "refs h' v \<subseteq> {Suc (hp_next h)..<hp_next h'}" using two(3) h1(2) h' by simp
  moreover have "view h' v = view h ?x"
    using deep_copier.view_local [OF dc loc] two(2) x(2) by simp
  moreover have "grows h h'" and "hp_next h < hp_next h'"
    using h1 two(1) h' by (auto simp: grows_def)
  ultimately show ?thesis using c al p' h' get_set by auto
qed

lemma deep_copier_pointer:
  assumes dc: "deep_copier copy refs view" and get_set: "\<And>v c. get (upd v c) = v"
  shows "deep_copier (copy_pointer get upd copy) (pointer_refs get refs) (pointer_view get view)"
proof -
  have *: "grows h h' \<and> pointer_view get view h' p' = pointer_view get view h p \<and>
      pointer_refs get refs h' p' \<subseteq> {hp_next h..<hp_next h'}"
    if "pointer_refs get refs h p \<subseteq> {..<hp_next h}" and "copy_pointer get upd copy p h = (p', h')" for h p p' h'
  proof (cases p)
    case None
    with that show ?thesis by simp
  next
    case (Some a)
    from copy_pointer_Some [OF dc get_set that [unfolded Some]] obtain v where
      p': "p' = Some (hp_next h)" "get (hp_cell h' (hp_next h)) = v" "grows h h'" "view h' v = view h (get (hp_cell h a))"
      and r: "refs h' v \<subseteq> {Suc (hp_next h)..<hp_next h'}" "hp_next h < hp_next h'" by blast
    have "refs h' v \<subseteq> {hp_next h..<hp_next h'}" by (rule order_trans [OF r(1)]) simp
    then show ?thesis using p' r(2) Some by simp
  qed
  show ?thesis
  proof (unfold_locales, goal_cases)
    case (4 h v h')
    show ?case
    proof (cases v)
      case (Some a)
      then have "\<forall>b\<in>refs h (get (hp_cell h a)). hp_cell h' b = hp_cell h b" and "hp_cell h' a = hp_cell h a" using 4 by auto
      from deep_copier.refs_local [OF dc this(1)] this(2) show ?thesis using Some by simp
    qed simp
  next
    case (5 h v h')
    show ?case
    proof (cases v)
      case (Some a)
      then have "\<forall>b\<in>refs h (get (hp_cell h a)). hp_cell h' b = hp_cell h b" and "hp_cell h' a = hp_cell h a" using 5 by auto
      from deep_copier.view_local [OF dc this(1)] this(2) show ?thesis using Some by simp
    qed simp
  qed (use * in blast)+
qed

subsection \<open>The elements of a list\<close>

primrec copy_list :: "('v \<Rightarrow> 'c heap \<Rightarrow> 'v \<times> 'c heap) \<Rightarrow> 'v list \<Rightarrow> 'c heap \<Rightarrow> 'v list \<times> 'c heap" where
  "copy_list copy [] h = ([], h)"
| "copy_list copy (x # xs) h = (let (y, h) = copy x h; (ys, h) = copy_list copy xs h in (y # ys, h))"

lemma copy_list_ok:
  assumes dc: "deep_copier copy refs view"
  shows "(\<Union>x\<in>set xs. refs h x) \<subseteq> {..<hp_next h} \<Longrightarrow> copy_list copy xs h = (ys, h') \<Longrightarrow>
    grows h h' \<and> map (view h') ys = map (view h) xs \<and> (\<Union>y\<in>set ys. refs h' y) \<subseteq> {hp_next h..<hp_next h'}"
proof (induction xs arbitrary: ys h)
  case (Cons x xs)
  obtain y h1 ys' where c: "copy x h = (y, h1)" and cs: "copy_list copy xs h1 = (ys', h')" and ys: "ys = y # ys'"
    using Cons.prems(2) by (auto split: prod.splits)
  have cl: "refs h x \<subseteq> {..<hp_next h}" using Cons.prems(1) by simp
  note one = deep_copier.copy_grows [OF dc cl c] deep_copier.copy_view [OF dc cl c] deep_copier.copy_fresh [OF dc cl c]
  have xs: "refs h1 z = refs h z \<and> view h1 z = view h z \<and> refs h1 z \<subseteq> {..<hp_next h1}" if "z \<in> set xs" for z
  proof -
    have "refs h z \<subseteq> {..<hp_next h}" using Cons.prems(1) that by auto
    from deep_copier.grows_local [OF dc this one(1)] show ?thesis by blast
  qed
  then have "(\<Union>x\<in>set xs. refs h1 x) \<subseteq> {..<hp_next h1}" by blast
  note rest = Cons.IH [OF this cs]
  have "refs h1 y \<subseteq> {..<hp_next h1}" using one(3) by auto
  note y = deep_copier.grows_local [OF dc this rest [THEN conjunct1]]
  have le: "hp_next h \<le> hp_next h1" "hp_next h1 \<le> hp_next h'" using one(1) rest by (auto simp: grows_def)
  have "refs h' y \<subseteq> {hp_next h..<hp_next h'}" unfolding y(1) by (rule order_trans [OF one(3)]) (simp add: le)
  moreover have "(\<Union>y\<in>set ys'. refs h' y) \<subseteq> {hp_next h..<hp_next h'}"
    by (rule order_trans [OF rest [THEN conjunct2, THEN conjunct2]]) (simp add: le)
  moreover have "map (view h') ys' = map (view h) xs" using rest xs by simp
  ultimately show ?case using ys y(2) one(2) grows_trans [OF one(1)] rest by simp
qed simp

lemma deep_copier_list:
  assumes "deep_copier copy refs view"
  shows "deep_copier (copy_list copy) (\<lambda>h xs. \<Union>x\<in>set xs. refs h x) (\<lambda>h. map (view h))"
proof (unfold_locales, goal_cases)
  case (1 h v v' h')
  from copy_list_ok [OF assms this] show ?case by (rule conjunct1)
next
  case (2 h v v' h')
  from copy_list_ok [OF assms this] show ?case by (elim conjE)
next
  case (3 h v v' h')
  from copy_list_ok [OF assms this] show ?case by (elim conjE)
next
  case (4 h v h')
  then have "refs h' x = refs h x" if "x \<in> set v" for x
    using that by (intro deep_copier.refs_local [OF assms]) auto
  then show ?case by simp
next
  case (5 h v h')
  then have "view h' x = view h x" if "x \<in> set v" for x
    using that by (intro deep_copier.view_local [OF assms]) auto
  then show ?case by simp
qed

subsection \<open>A struct as the tuple of its parts\<close>

text \<open>
  A method that copies the parts \<open>parts x\<close> of a struct and puts the copies into it with \<open>build x\<close>;
  what a reader sees of the struct is a function of what he sees of the parts and of the rest.
\<close>

lemma deep_copier_struct:
  assumes dc: "deep_copier copy refs view"
    and parts: "\<And>x p. parts (build x p) = p"
    and rest: "\<And>x p w. show_parts (build x p) w = show_parts x w"
    and whole: "\<And>x h. dup x h = (case copy (parts x) h of (p, h') \<Rightarrow> (build x p, h'))"
  shows "deep_copier dup (\<lambda>h x. refs h (parts x)) (\<lambda>h x. show_parts x (view h (parts x)))"
proof (unfold_locales, goal_cases)
  case (1 h v v' h')
  then show ?case using deep_copier.copy_grows [OF dc] by (auto simp: whole split: prod.splits)
next
  case (2 h v v' h')
  then obtain p where p: "copy (parts v) h = (p, h')" "v' = build v p" by (auto simp: whole split: prod.splits)
  then show ?case using deep_copier.copy_view [OF dc 2(1) p(1)] by (simp add: parts rest)
next
  case (3 h v v' h')
  then obtain p where p: "copy (parts v) h = (p, h')" "v' = build v p" by (auto simp: whole split: prod.splits)
  then show ?case using deep_copier.copy_fresh [OF dc 3(1) p(1)] by (simp add: parts)
next
  case (4 h v h')
  then show ?case by (rule deep_copier.refs_local [OF dc])
next
  case (5 h v h')
  then show ?case using deep_copier.view_local [OF dc 5] by simp
qed

section \<open>The methods fulfil the contract\<close>

definition copier_ok :: "('v, 'c, 'w) copier \<Rightarrow> bool" where
  "copier_ok cp \<longleftrightarrow> deep_copier (cp_copy cp) (cp_refs cp) (cp_view cp)"

definition externals_ok :: "('m, 'l, 's, 't, 'x, 'vm, 'vl, 'vs, 'vt) externals \<Rightarrow> bool" where
  "externals_ok X \<longleftrightarrow> copier_ok (ex_ObjectMeta X) \<and> copier_ok (ex_ListMeta X) \<and>
     copier_ok (ex_LabelSelector X) \<and> copier_ok (ex_PodTemplateSpec X)"

text \<open>What the structs reach, and what a reader sees of them.\<close>

definition spec_refs :: "('m, 'l, 's, 't, 'x, 'vm, 'vl, 'vs, 'vt) externals \<Rightarrow> ('m, 'l, 's, 't, 'x) memory \<Rightarrow>
    (addr, 't) specStruct \<Rightarrow> addr set" where
  "spec_refs X h x = pointer_refs cl_selector (cp_refs (ex_LabelSelector X)) h (sp_Selector x) \<union>
     cp_refs (ex_PodTemplateSpec X) h (sp_Template x)"

definition spec_view :: "('m, 'l, 's, 't, 'x, 'vm, 'vl, 'vs, 'vt) externals \<Rightarrow> ('m, 'l, 's, 't, 'x) memory \<Rightarrow>
    (addr, 't) specStruct \<Rightarrow> ('vs, 'vt) specStruct" where
  "spec_view X h x = \<lparr>sp_Replicas = sp_Replicas x, sp_SourcePod = sp_SourcePod x, sp_DestHost = sp_DestHost x,
     sp_SnapshotPath = sp_SnapshotPath x,
     sp_Selector = pointer_view cl_selector (cp_view (ex_LabelSelector X)) h (sp_Selector x),
     sp_Template = cp_view (ex_PodTemplateSpec X) h (sp_Template x), sp_Action = sp_Action x\<rparr>"

definition migration_refs :: "('m, 'l, 's, 't, 'x, 'vm, 'vl, 'vs, 'vt) externals \<Rightarrow> ('m, 'l, 's, 't, 'x) memory \<Rightarrow>
    ('m, addr, 't) migrationStruct \<Rightarrow> addr set" where
  "migration_refs X h x = cp_refs (ex_ObjectMeta X) h (mi_ObjectMeta x) \<union> spec_refs X h (mi_Spec x)"

definition migration_view :: "('m, 'l, 's, 't, 'x, 'vm, 'vl, 'vs, 'vt) externals \<Rightarrow> ('m, 'l, 's, 't, 'x) memory \<Rightarrow>
    ('m, addr, 't) migrationStruct \<Rightarrow> ('vm, 'vs, 'vt) migrationStruct" where
  "migration_view X h x = \<lparr>mi_TypeMeta = mi_TypeMeta x, mi_ObjectMeta = cp_view (ex_ObjectMeta X) h (mi_ObjectMeta x),
     mi_Spec = spec_view X h (mi_Spec x), mi_Status = mi_Status x\<rparr>"

definition list_refs :: "('m, 'l, 's, 't, 'x, 'vm, 'vl, 'vs, 'vt) externals \<Rightarrow> ('m, 'l, 's, 't, 'x) memory \<Rightarrow>
    ('l, addr) listStruct \<Rightarrow> addr set" where
  "list_refs X h x = cp_refs (ex_ListMeta X) h (li_ListMeta x) \<union>
     pointer_refs cl_array (\<lambda>h xs. \<Union>x\<in>set xs. migration_refs X h x) h (li_Items x)"

definition list_view :: "('m, 'l, 's, 't, 'x, 'vm, 'vl, 'vs, 'vt) externals \<Rightarrow> ('m, 'l, 's, 't, 'x) memory \<Rightarrow>
    ('l, addr) listStruct \<Rightarrow> ('vl, ('vm, 'vs, 'vt) migrationStruct list) listStruct" where
  "list_view X h x = \<lparr>li_TypeMeta = li_TypeMeta x, li_ListMeta = cp_view (ex_ListMeta X) h (li_ListMeta x),
     li_Items = pointer_view cl_array (\<lambda>h. map (migration_view X h)) h (li_Items x)\<rparr>"

lemma deep_copier_spec:
  assumes "externals_ok X"
  shows "deep_copier (Spec_DeepCopyInto X) (spec_refs X) (spec_view X)"
proof -
  let ?sel = "copy_pointer cl_selector (\<lambda>s c. c\<lparr>cl_selector := s\<rparr>) (cp_copy (ex_LabelSelector X))"
  let ?copy = "copy_pair ?sel (cp_copy (ex_PodTemplateSpec X))"
  let ?build = "\<lambda>x p. x\<lparr>sp_Selector := fst p, sp_Template := snd p\<rparr>"
  let ?show = "\<lambda>x w. \<lparr>sp_Replicas = sp_Replicas x, sp_SourcePod = sp_SourcePod x, sp_DestHost = sp_DestHost x,
     sp_SnapshotPath = sp_SnapshotPath x, sp_Selector = fst w, sp_Template = snd w, sp_Action = sp_Action x\<rparr>"
  have *: "deep_copier ?copy (\<lambda>h p. pointer_refs cl_selector (cp_refs (ex_LabelSelector X)) h (fst p) \<union>
        cp_refs (ex_PodTemplateSpec X) h (snd p))
      (\<lambda>h p. (pointer_view cl_selector (cp_view (ex_LabelSelector X)) h (fst p), cp_view (ex_PodTemplateSpec X) h (snd p)))"
    using assms by (intro deep_copier_pair deep_copier_pointer) (simp_all add: externals_ok_def copier_ok_def)
  have "Spec_DeepCopyInto X x h = (case ?copy (sp_Selector x, sp_Template x) h of (p, h') \<Rightarrow> (?build x p, h'))" for x h
    by (cases x; cases "sp_Selector x")
      (simp_all add: Spec_DeepCopyInto_def copy_pair_def copy_pointer_def Let_def split: prod.split)
  from deep_copier_struct [OF *, of "\<lambda>x. (sp_Selector x, sp_Template x)" ?build ?show, OF _ _ this]
  show ?thesis by (simp add: spec_refs_def [abs_def] spec_view_def [abs_def])
qed

lemma deep_copier_migration:
  assumes "externals_ok X"
  shows "deep_copier (Migration_DeepCopyInto X) (migration_refs X) (migration_view X)"
proof -
  let ?copy = "copy_pair (cp_copy (ex_ObjectMeta X)) (Spec_DeepCopyInto X)"
  let ?build = "\<lambda>x p. x\<lparr>mi_ObjectMeta := fst p, mi_Spec := snd p\<rparr>"
  let ?show = "\<lambda>x w. \<lparr>mi_TypeMeta = mi_TypeMeta x, mi_ObjectMeta = fst w, mi_Spec = snd w, mi_Status = mi_Status x\<rparr>"
  have *: "deep_copier ?copy (\<lambda>h p. cp_refs (ex_ObjectMeta X) h (fst p) \<union> spec_refs X h (snd p))
      (\<lambda>h p. (cp_view (ex_ObjectMeta X) h (fst p), spec_view X h (snd p)))"
    using assms deep_copier_spec [OF assms] by (intro deep_copier_pair) (simp_all add: externals_ok_def copier_ok_def)
  have "Migration_DeepCopyInto X x h = (case ?copy (mi_ObjectMeta x, mi_Spec x) h of (p, h') \<Rightarrow> (?build x p, h'))" for x h
    by (cases x) (simp add: Migration_DeepCopyInto_def copy_pair_def Let_def split: prod.split)
  from deep_copier_struct [OF *, of "\<lambda>x. (mi_ObjectMeta x, mi_Spec x)" ?build ?show, OF _ _ this]
  show ?thesis by (simp add: migration_refs_def [abs_def] migration_view_def [abs_def])
qed

lemma copy_items_list: "copy_items X xs h = copy_list (Migration_DeepCopyInto X) xs h"
  by (induction xs arbitrary: h) simp_all

lemma deep_copier_migration_list:
  assumes "externals_ok X"
  shows "deep_copier (List_DeepCopyInto X) (list_refs X) (list_view X)"
proof -
  let ?items = "copy_pointer cl_array (\<lambda>xs c. c\<lparr>cl_array := xs\<rparr>) (copy_list (Migration_DeepCopyInto X))"
  let ?copy = "copy_pair (cp_copy (ex_ListMeta X)) ?items"
  let ?build = "\<lambda>x p. x\<lparr>li_ListMeta := fst p, li_Items := snd p\<rparr>"
  let ?show = "\<lambda>x w. \<lparr>li_TypeMeta = li_TypeMeta x, li_ListMeta = fst w, li_Items = snd w\<rparr>"
  have *: "deep_copier ?copy (\<lambda>h p. cp_refs (ex_ListMeta X) h (fst p) \<union>
        pointer_refs cl_array (\<lambda>h xs. \<Union>x\<in>set xs. migration_refs X h x) h (snd p))
      (\<lambda>h p. (cp_view (ex_ListMeta X) h (fst p), pointer_view cl_array (\<lambda>h. map (migration_view X h)) h (snd p)))"
    using assms deep_copier_list [OF deep_copier_migration [OF assms]]
    by (intro deep_copier_pair deep_copier_pointer) (simp_all add: externals_ok_def copier_ok_def)
  have "List_DeepCopyInto X x h = (case ?copy (li_ListMeta x, li_Items x) h of (p, h') \<Rightarrow> (?build x p, h'))" for x h
    by (cases x; cases "li_Items x")
      (simp_all add: List_DeepCopyInto_def copy_pair_def copy_pointer_def copy_items_list Let_def split: prod.split)
  from deep_copier_struct [OF *, of "\<lambda>x. (li_ListMeta x, li_Items x)" ?build ?show, OF _ _ this]
  show ?thesis by (simp add: list_refs_def [abs_def] list_view_def [abs_def])
qed

text \<open>The \<open>DeepCopy\<close> methods are copies behind a pointer.\<close>

lemma DeepCopy_pointer:
  "Migration_DeepCopy X = copy_pointer cl_migration (\<lambda>v c. c\<lparr>cl_migration := v\<rparr>) (Migration_DeepCopyInto X)"
  "List_DeepCopy X = copy_pointer cl_list (\<lambda>v c. c\<lparr>cl_list := v\<rparr>) (List_DeepCopyInto X)"
  "Spec_DeepCopy X = copy_pointer cl_spec (\<lambda>v c. c\<lparr>cl_spec := v\<rparr>) (Spec_DeepCopyInto X)"
  "Status_DeepCopy = copy_pointer cl_status (\<lambda>v c. c\<lparr>cl_status := v\<rparr>) Status_DeepCopyInto"
  by (simp_all add: fun_eq_iff Migration_DeepCopy_def List_DeepCopy_def Spec_DeepCopy_def Status_DeepCopy_def
      copy_pointer_def)

interpretation status_pointer: deep_copier Status_DeepCopy "pointer_refs cl_status (\<lambda>h v. {})"
  "pointer_view cl_status (\<lambda>h v. v)"
  unfolding DeepCopy_pointer by (rule deep_copier_pointer [OF status.deep_copier_axioms]) simp

text \<open>Independence of a copy behind a pointer, in both directions.\<close>

lemma copy_pointer_independent:
  assumes dc: "deep_copier copy refs view" and get_set: "\<And>v c. get (upd v c) = v"
    and closed: "pointer_refs get refs h (Some a) \<subseteq> {..<hp_next h}"
    and copy: "copy_pointer get upd copy (Some a) h = (p', h')"
  shows "\<exists>b. p' = Some b \<and> hp_next h \<le> b \<and> view h' (get (hp_cell h' b)) = view h (get (hp_cell h a)) \<and>
    (\<forall>h2. (\<forall>x. x \<notin> pointer_refs get refs h (Some a) \<longrightarrow> hp_cell h2 x = hp_cell h' x) \<longrightarrow>
       view h2 (get (hp_cell h2 b)) = view h (get (hp_cell h a))) \<and>
    (\<forall>h2. (\<forall>x. x \<notin> pointer_refs get refs h' (Some b) \<longrightarrow> hp_cell h2 x = hp_cell h' x) \<longrightarrow>
       view h2 (get (hp_cell h2 a)) = view h (get (hp_cell h a)))"
proof -
  note ptr = deep_copier_pointer [OF dc, of get upd, OF get_set]
  obtain b where p': "p' = Some b" and b: "hp_next h \<le> b"
    using copy_pointer_Some [OF dc get_set closed copy] by blast
  have "view h2 (get (hp_cell h2 b)) = view h (get (hp_cell h a))"
    if "\<forall>x. x \<notin> pointer_refs get refs h (Some a) \<longrightarrow> hp_cell h2 x = hp_cell h' x" for h2
    using deep_copier.copy_independent [OF ptr closed copy, of h2] that p' by simp
  moreover have "view h2 (get (hp_cell h2 a)) = view h (get (hp_cell h a))"
    if "\<forall>x. x \<notin> pointer_refs get refs h' (Some b) \<longrightarrow> hp_cell h2 x = hp_cell h' x" for h2
    using deep_copier.original_independent [OF ptr closed copy, of h2] that p' by simp
  ultimately show ?thesis using p' b by blast
qed

section \<open>Properties\<close>

abbreviation migration_at :: "('m, 'l, 's, 't, 'x, 'vm, 'vl, 'vs, 'vt) externals \<Rightarrow> ('m, 'l, 's, 't, 'x) memory \<Rightarrow>
    addr \<Rightarrow> ('vm, 'vs, 'vt) migrationStruct" where
  "migration_at X h a \<equiv> migration_view X h (cl_migration (hp_cell h a))"

abbreviation migration_reach :: "('m, 'l, 's, 't, 'x, 'vm, 'vl, 'vs, 'vt) externals \<Rightarrow> ('m, 'l, 's, 't, 'x) memory \<Rightarrow>
    addr \<Rightarrow> addr set" where
  "migration_reach X h a \<equiv> insert a (migration_refs X h (cl_migration (hp_cell h a)))"

text \<open>C20: The deep copy of a \<open>LiveMigration\<close> object is a new object that reads the same and shares
  nothing with the original, provided the copying methods of the embedded Kubernetes types do
  so: no change of the memory that the original reaches shows in the copy, and no change of the
  memory that the copy reaches shows in the original. A nil pointer is copied to nil.\<close>
theorem LiveMigration_DeepCopy_independent:
  assumes "externals_ok X" and "migration_reach X h a \<subseteq> {..<hp_next h}"
    and "Migration_DeepCopyObject X (Some a) h = (obj, h')"
  shows "Migration_DeepCopyObject X None h = (None, h) \<and> (\<exists>b. obj = Some (LiveMigrationObject b) \<and> hp_next h \<le> b \<and> migration_at X h' b = migration_at X h a \<and>
    (\<forall>h2. (\<forall>x. x \<notin> migration_reach X h a \<longrightarrow> hp_cell h2 x = hp_cell h' x) \<longrightarrow> migration_at X h2 b = migration_at X h a) \<and>
    (\<forall>h2. (\<forall>x. x \<notin> migration_reach X h' b \<longrightarrow> hp_cell h2 x = hp_cell h' x) \<longrightarrow> migration_at X h2 a = migration_at X h a))"
proof -
  obtain p where p: "Migration_DeepCopy X (Some a) h = (p, h')"
    and obj: "obj = map_option LiveMigrationObject p"
    using assms(3) by (auto simp: Migration_DeepCopyObject_def split: prod.splits option.splits)
  have "pointer_refs cl_migration (migration_refs X) h (Some a) \<subseteq> {..<hp_next h}" using assms(2) by simp
  from copy_pointer_independent [OF deep_copier_migration [OF assms(1)] _ this p [unfolded DeepCopy_pointer]]
  show ?thesis using obj by (auto simp: Migration_DeepCopyObject_def Migration_DeepCopy_def)
qed

abbreviation list_at :: "('m, 'l, 's, 't, 'x, 'vm, 'vl, 'vs, 'vt) externals \<Rightarrow> ('m, 'l, 's, 't, 'x) memory \<Rightarrow>
    addr \<Rightarrow> ('vl, ('vm, 'vs, 'vt) migrationStruct list) listStruct" where
  "list_at X h a \<equiv> list_view X h (cl_list (hp_cell h a))"

abbreviation list_reach :: "('m, 'l, 's, 't, 'x, 'vm, 'vl, 'vs, 'vt) externals \<Rightarrow> ('m, 'l, 's, 't, 'x) memory \<Rightarrow>
    addr \<Rightarrow> addr set" where
  "list_reach X h a \<equiv> insert a (list_refs X h (cl_list (hp_cell h a)))"

text \<open>C21: The deep copy of a \<open>LiveMigrationList\<close> has the same items in the same order, in a new
  array, and shares nothing with the original list: neither the array nor anything that an item
  reaches. A nil pointer is copied to nil.\<close>
theorem LiveMigrationList_DeepCopy_independent:
  assumes "externals_ok X" and "list_reach X h a \<subseteq> {..<hp_next h}"
    and "List_DeepCopyObject X (Some a) h = (obj, h')"
  shows "List_DeepCopyObject X None h = (None, h) \<and> (\<exists>b. obj = Some (LiveMigrationListObject b) \<and> hp_next h \<le> b \<and> list_at X h' b = list_at X h a \<and>
    (\<forall>h2. (\<forall>x. x \<notin> list_reach X h a \<longrightarrow> hp_cell h2 x = hp_cell h' x) \<longrightarrow> list_at X h2 b = list_at X h a) \<and>
    (\<forall>h2. (\<forall>x. x \<notin> list_reach X h' b \<longrightarrow> hp_cell h2 x = hp_cell h' x) \<longrightarrow> list_at X h2 a = list_at X h a))"
proof -
  obtain p where p: "List_DeepCopy X (Some a) h = (p, h')"
    and obj: "obj = map_option LiveMigrationListObject p"
    using assms(3) by (auto simp: List_DeepCopyObject_def split: prod.splits option.splits)
  have "pointer_refs cl_list (list_refs X) h (Some a) \<subseteq> {..<hp_next h}" using assms(2) by simp
  from copy_pointer_independent [OF deep_copier_migration_list [OF assms(1)] _ this p [unfolded DeepCopy_pointer]]
  show ?thesis using obj by (auto simp: List_DeepCopyObject_def List_DeepCopy_def)
qed

subsection \<open>Examples\<close>

text \<open>Embedded structs with one map each, which their method copies.\<close>

type_synonym map_ref = "addr option"

type_synonym sample_cell = "(map_ref, map_ref, map_ref, map_ref, (string \<times> string) list) cell"

definition sample_copier :: "(map_ref, sample_cell, (string \<times> string) list option) copier" where
  "sample_copier = \<lparr>cp_copy = copy_pointer cl_other (\<lambda>v c. c\<lparr>cl_other := v\<rparr>) (\<lambda>v h. (v, h)),
     cp_refs = pointer_refs cl_other (\<lambda>h v. {}), cp_view = pointer_view cl_other (\<lambda>h v. v)\<rparr>"

lemma sample_copier_ok: "copier_ok sample_copier"
proof -
  have "deep_copier (\<lambda>v h. (v, h)) (\<lambda>h v. {}) (\<lambda>h v. v)" by unfold_locales auto
  from deep_copier_pointer [OF this, of cl_other "\<lambda>v c. c\<lparr>cl_other := v\<rparr>"]
  show ?thesis by (simp add: copier_ok_def sample_copier_def)
qed

definition sample_externals :: "(map_ref, map_ref, map_ref, map_ref, (string \<times> string) list,
    (string \<times> string) list option, (string \<times> string) list option, (string \<times> string) list option,
    (string \<times> string) list option) externals" where
  "sample_externals = \<lparr>ex_ObjectMeta = sample_copier, ex_ListMeta = sample_copier,
     ex_LabelSelector = sample_copier, ex_PodTemplateSpec = sample_copier\<rparr>"

lemma sample_externals_ok: "externals_ok sample_externals"
  by (simp add: externals_ok_def sample_externals_def sample_copier_ok)

definition sample_spec :: "(addr, map_ref) specStruct" where
  "sample_spec = \<lparr>sp_Replicas = 1, sp_SourcePod = ''web'', sp_DestHost = [], sp_SnapshotPath = [],
     sp_Selector = Some 1, sp_Template = None, sp_Action = ''live-migration''\<rparr>"

text \<open>An object at address 0 with a selector at address 1 whose labels are at address 2.\<close>

definition sample_struct :: "(map_ref, addr, map_ref) migrationStruct" where
  "sample_struct = \<lparr>mi_TypeMeta = (''LiveMigration'', ''v1alpha1''), mi_ObjectMeta = None, mi_Spec = sample_spec,
     mi_Status = liveMigrationStatus0\<rparr>"

definition sample_heap :: "sample_cell heap" where
  "sample_heap = \<lparr>hp_cell = (\<lambda>a. \<lparr>cl_migration = sample_struct,
       cl_list = \<lparr>li_TypeMeta = (''List'', ''v1alpha1''), li_ListMeta = None, li_Items = Some 3\<rparr>,
       cl_spec = sample_spec, cl_status = liveMigrationStatus0, cl_selector = Some 2,
       cl_array = [sample_struct], cl_other = [(''livemig'', ''unipi'')]\<rparr>), hp_next = 4\<rparr>"

lemmas sample_heap_defs = sample_heap_def sample_struct_def sample_spec_def sample_externals_def sample_copier_def
  migration_refs_def spec_refs_def list_refs_def migration_view_def spec_view_def list_view_def

theorem LiveMigration_DeepCopy_independent_witness:
  "\<exists>b h'. Migration_DeepCopyObject sample_externals (Some 0) sample_heap = (Some (LiveMigrationObject b), h') \<and> 4 \<le> b \<and>
     sp_Selector (mi_Spec (migration_at sample_externals
       (store_at 2 (\<lambda>c. c\<lparr>cl_other := []\<rparr>) h') b)) = Some (Some [(''livemig'', ''unipi'')])"
proof -
  obtain obj h' where c: "Migration_DeepCopyObject sample_externals (Some 0) sample_heap = (obj, h')"
    by (cases "Migration_DeepCopyObject sample_externals (Some 0) sample_heap")
  have reach: "migration_reach sample_externals sample_heap 0 = {0, 1, 2}"
    by (auto simp: sample_heap_defs)
  then have "migration_reach sample_externals sample_heap 0 \<subseteq> {..<hp_next sample_heap}"
    by (simp add: sample_heap_def)
  from LiveMigration_DeepCopy_independent [OF sample_externals_ok this c]
  obtain b where obj: "obj = Some (LiveMigrationObject b)" "hp_next sample_heap \<le> b"
    and ind: "\<And>h2. (\<forall>x. x \<notin> migration_reach sample_externals sample_heap 0 \<longrightarrow> hp_cell h2 x = hp_cell h' x) \<Longrightarrow>
      migration_at sample_externals h2 b = migration_at sample_externals sample_heap 0" by blast
  have "migration_at sample_externals (store_at 2 (\<lambda>c. c\<lparr>cl_other := []\<rparr>) h') b =
      migration_at sample_externals sample_heap 0"
    by (rule ind) (simp add: reach)
  then have "sp_Selector (mi_Spec (migration_at sample_externals (store_at 2 (\<lambda>c. c\<lparr>cl_other := []\<rparr>) h') b)) =
      Some (Some [(''livemig'', ''unipi'')])"
    by (simp only:) (simp add: sample_heap_defs)
  with c obj show ?thesis by (auto simp: sample_heap_def)
qed

theorem LiveMigrationList_DeepCopy_independent_witness:
  "\<exists>b h'. List_DeepCopyObject sample_externals (Some 0) sample_heap = (Some (LiveMigrationListObject b), h') \<and> 4 \<le> b \<and>
     map_option length (li_Items (list_at sample_externals (store_at 3 (\<lambda>c. c\<lparr>cl_array := []\<rparr>) h') b)) = Some 1"
proof -
  obtain obj h' where c: "List_DeepCopyObject sample_externals (Some 0) sample_heap = (obj, h')"
    by (cases "List_DeepCopyObject sample_externals (Some 0) sample_heap")
  have reach: "list_reach sample_externals sample_heap 0 = {0, 1, 2, 3}"
    by (auto simp: sample_heap_defs)
  then have "list_reach sample_externals sample_heap 0 \<subseteq> {..<hp_next sample_heap}"
    by (simp add: sample_heap_def)
  from LiveMigrationList_DeepCopy_independent [OF sample_externals_ok this c]
  obtain b where obj: "obj = Some (LiveMigrationListObject b)" "hp_next sample_heap \<le> b"
    and ind: "\<And>h2. (\<forall>x. x \<notin> list_reach sample_externals sample_heap 0 \<longrightarrow> hp_cell h2 x = hp_cell h' x) \<Longrightarrow>
      list_at sample_externals h2 b = list_at sample_externals sample_heap 0" by blast
  have "list_at sample_externals (store_at 3 (\<lambda>c. c\<lparr>cl_array := []\<rparr>) h') b = list_at sample_externals sample_heap 0"
    by (rule ind) (simp add: reach)
  then have "map_option length (li_Items (list_at sample_externals (store_at 3 (\<lambda>c. c\<lparr>cl_array := []\<rparr>) h') b)) = Some 1"
    by (simp only:) (simp add: sample_heap_defs)
  with c obj show ?thesis by (auto simp: sample_heap_def)
qed

end
