(* ===== verification/Spec2Isabelle.thy ===== *)
theory Spec2Isabelle
  imports Pipeline_Log Reconcile Restore Dummy Helpers Manager File_Handler Entry Deep_Copy
begin

text \<open>
  A verification development of the live-migration operator: a Kubernetes operator in Go that
  moves a running pod from one node to another. It checkpoints the pod's containers through
  the kubelet, uploads the archives to a receiving pod, deletes the source pod, and on the
  receiving side turns each archive into an image and creates a pod from the images.

  \<^bold>\<open>The program and its parts.\<close>
  The reconciler (\<open>controllers/livemigration.go\<close>) handles a \<open>LiveMigration\<close> object: it either
  puts up the receiver (\<open>controllers/dummy/dummy.go\<close>, a pod that runs
  \<open>file-handler/file-handler.go\<close> behind a service) or prepares a pod and a deployment from the
  source pod's template (\<open>controllers/helpers.go\<close>), then starts two goroutines, one that waits
  for the end-of-transfer marker and restores (\<open>controllers/restore.go\<close>), and one that migrates
  the source pod (\<open>controllers/migrate.go\<close>, \<open>checkpoint.go\<close>, \<open>crio.go\<close>). All use the functions
  of \<open>controllers/utils/utils.go\<close>. Beside it stands an HTTP API to list and create
  \<open>LiveMigration\<close> objects (\<open>api-server\<close>), and \<open>main.go\<close> starts the operator.

  \<^bold>\<open>How Go code is modelled.\<close>
  A function body is a value of type \<open>prog\<close> (theory \<open>Go_Prog\<close>): it returns, panics, runs out of
  a loop bound, or makes one step on the state, which may be disabled (a blocked goroutine).
  The outside world (API server, processes, file system, timers) is reached by calls; the state
  is the history of the calls made, and an environment is a record of functions from the history
  and the arguments to the answer. A theorem for all environments holds for every behaviour of
  the outside, including every failure. Errors are values (\<open>goerr option\<close>, or \<open>Inl\<close> of a sum), nil
  pointers and nil maps are \<open>None\<close>, and dereferencing, indexing and writing them are explicit
  panics. A Go \<open>int\<close> is a 64 bit word and an \<open>int32\<close> a 32 bit word where the code computes with
  them. Goroutines joined by a wait group run under an arbitrary schedule (\<open>par\<close>, which covers
  every interleaving); goroutines that talk over channels are step functions of a machine whose
  every sequence of choices is an execution.

  \<^bold>\<open>The theories.\<close>
  \<^item> \<open>Go_Prog\<close>: programs, runs, goroutines, the effect system \<open>calls_in\<close>, the relation \<open>emits\<close>
    between a goroutine and its calls, the calls that a goroutine is \<open>sure\<close> to make, fair
    infinite schedules, the locales \<open>inductive_invariant\<close> (invariants of reachable
    states) and \<open>machine\<close> (executions as lists of choices), interpreted for the machines of
    \<open>Pipeline\<close>, \<open>Reconcile\<close> and \<open>Manager\<close>.
  \<^item> \<open>Go_Strings\<close>: the functions of \<open>strings\<close>, \<open>filepath\<close>, \<open>regexp\<close> and \<open>fmt\<close> that the code uses.
  \<^item> \<open>Api_Types\<close>: Kubernetes objects and the repository's types (\<open>api/v1alpha1\<close>,
    \<open>controllers/types\<close>). \<open>Kube\<close>: calls and environments of the controller.
  \<^item> \<open>Naming\<close> and \<open>Utils\<close>: \<open>controllers/utils/utils.go\<close>. The name functions are characterised by
    the regular expression and by the parts of the path, with the round trip for names the
    kubelet writes; the waiting loops are shown to return within a bound.
  \<^item> \<open>Dummy\<close>: \<open>dummy.go\<close>; the creation is idempotent. \<open>Helpers\<close>: \<open>helpers.go\<close>; selector, labels,
    annotations, replica count with wrap-around.
  \<^item> \<open>Checkpoint\<close>: \<open>checkpoint.go\<close> and \<open>crio.go\<close>; the two ways to checkpoint are two instances of
    the locale \<open>checkpointer\<close> and equivalent.
  \<^item> \<open>Migrate\<close>: the sequential part of \<open>migrate.go\<close>. \<open>Pipeline\<close>: the machine of
    \<open>MigratePodPipelined\<close>, with a well-founded measure and the invariant of its channels and wait
    group. \<open>Pipeline_Log\<close>: the invariant of its history, and from it order, completion, and that
    it implements the sequential migration, and that it returns under every fair schedule.
  \<^item> \<open>Restore\<close>: \<open>restore.go\<close> and \<open>processFile\<close>. \<open>Reconcile\<close>: the rest of \<open>livemigration.go\<close>; the
    reconciler is a machine that contains the pipeline machine, with invariants of every execution and
    the progress of the goroutine that restores under every fair schedule.
  \<^item> \<open>Endpoints\<close>: \<open>api-server/endpoints\<close>, with an explicit store for the status pointers.
    \<open>Manager\<close>: \<open>signals.go\<close>, \<open>manager.go\<close>, \<open>server.go\<close>; \<open>Start\<close> and its goroutines are a machine,
    with an invariant and what is left of the goroutines after \<open>Start\<close> has returned.
  \<^item> \<open>File_Handler\<close>: \<open>file-handler.go\<close>. \<open>Entry\<close>: \<open>main.go\<close> with \<open>init\<close> and the parsing of the command
    line, \<open>groupversion_info.go\<close> and \<open>SetupWithManager\<close>.
  \<^item> \<open>Deep_Copy\<close>: \<open>zz_generated.deepcopy.go\<close> on an explicit heap. What a copying function promises
    (same content, new memory, nothing shared) is the locale \<open>deep_copier\<close>; it is closed under
    pairs, pointers, arrays and structs, which gives it for every type of the package.
  \<^item> This theory: the parts together. The uploads of the sender are handled by the file handler
    in the dummy pod, end up in the receiving node's folder and are restored, with the sequential
    functions and on the pipelined path of the reconciler; the readiness probe fits the handler's
    answer.

  \<^bold>\<open>Bounds.\<close>
  Loops that may run for ever (\<open>WaitForContainerReady\<close>, \<open>WaitForServiceReady\<close>, the loop of
  \<open>RemoveCheckpointPod\<close>) take the number \<open>loopBound\<close> of the environment; running out of it is the
  outcome \<open>OutOfFuel\<close>, which no Go value has. The theorems on them say how many iterations are
  enough: one more than the number of waits after which the awaited answer arrives. The timer and
  ticker of \<open>WaitForContainerReady\<close>, 300 and 20 seconds, give 15 waits. The events of a watch are a
  finite list followed by the closing of the channel, by silence or by an endless stream of other
  events; on the last of these \<open>WaitForPodDeletion\<close> runs out of every bound. The machines have no bound:
  the steps of the pipeline decrease a well-founded measure, so that with an outside that answers
  it returns under every fair schedule; the others are described by invariants of every reachable
  state.

  \<^bold>\<open>What the outside is trusted for\<close> is stated as hypotheses: \<open>service_at\<close> and
  \<open>service_up_after\<close> (the dummy service has an address, its handler answers from some time on),
  \<open>deletion_seen\<close> (the watch reports the deletion or ends), \<open>info_ok\<close> (a directory entry has its own name), \<open>commands_ok\<close> and \<open>disk_ok\<close> (commands
  and file operations succeed), \<open>pod_store\<close> (the API server stores pods), \<open>ranges\<close> (\<open>range\<close>
  visits the keys of a map), \<open>manager_or_error\<close>, \<open>externals_ok\<close> (the copying methods of the
  Kubernetes types make independent copies). \<open>curl\<close> is taken to send the last component of a
  path as the name of the upload.

  \<^bold>\<open>Not modelled.\<close>
  Log output; the contexts passed to library calls; the effect of the CORS filter on requests;
  the libraries themselves (controller-runtime, client-go, go-restful, fasthttp, fsnotify, buildah,
  the JSON encoder), whose answers are parameters; import clauses, struct tags and the unused
  type \<open>Options\<close> of \<open>manager.go\<close>; manifests, container files and scripts. Data races are modelled at
  the grain of one read or write of a shared variable.
\<close>

section \<open>Definitions\<close>

subsection \<open>The way of an archive from the source to the receiving node\<close>

text \<open>The file behind \<open>-F file=@path\<close> in an upload command, and the last component of a path.\<close>

definition sent_file :: "call \<Rightarrow> string" where
  "sent_file c = (case c of Exec m args \<Rightarrow> drop 6 (args ! 4) | _ \<Rightarrow> [])"

definition base_name :: "string \<Rightarrow> string" where
  "base_name p = last (split p ''/'')"

text \<open>
  What an upload command does at the file handler: a POST to \<open>/upload\<close> whose form has the field
  \<open>file\<close> with the last component of the path as its name (as documented for \<open>curl\<close>).
\<close>

definition receive :: "upload_env \<Rightarrow> call \<Rightarrow> (file_call, 'm, unit) go" where
  "receive U c =
     bind_go (file_handler (U\<lparr>up_formFile := \<lambda>h n. Inr (base_name (sent_file c))\<rparr>) ''/upload'' ''POST'') (\<lambda>_. Ret ())"

definition stored :: "file_call list \<Rightarrow> string list" where
  "stored h = concat (map (\<lambda>c. case c of CopyTo p \<Rightarrow> [p] | _ \<Rightarrow> []) h)"

text \<open>The files that a sequence of upload commands leaves in the file handler's container.\<close>

definition files_received :: "upload_env \<Rightarrow> call list \<Rightarrow> string list" where
  "files_received U us = stored (hist (snd (run (for_each (receive U) us) \<lparr>hist = []\<rparr>)))"

text \<open>Where a path of the first container of a pod is on the node: the volume mounted there.\<close>

definition host_path :: "pod \<Rightarrow> string \<Rightarrow> string option" where
  "host_path p path =
     (case concat (map (\<lambda>c. filter (\<lambda>(v, mp). prefix (mp @ ''/'') path) (c_VolumeMounts c)) (ps_Containers (pod_Spec p))) of
        [] \<Rightarrow> None
      | (v, mp) # _ \<Rightarrow>
          (case filter (\<lambda>vol. v_Name vol = v) (ps_Volumes (pod_Spec p)) of
             [] \<Rightarrow> None
           | vol # _ \<Rightarrow> map_option (\<lambda>d. d @ drop (length mp) path) (v_HostPath vol)))"

section \<open>Paths\<close>

lemma path_join_checkpoints_dir:
  assumes "plain_name n"
  shows "path_join checkpoints_dir n = checkpoints_dir @ CHR ''/'' # n"
proof -
  have "list_all plain_name [''tmp'', ''checkpoints'', ''checkpoints'']" by (simp add: plain_name_def)
  from path_join_rooted [OF this assms] show ?thesis by (simp add: checkpoints_dir_def)
qed

lemma base_name_append: "CHR ''/'' \<notin> set n \<Longrightarrow> base_name (d @ CHR ''/'' # n) = n"
  by (simp add: base_name_def split_char_app split_char_single)

lemma sent_file_upload [simp]: "sent_file (upload_call addr p) = p"
  by (simp add: sent_file_def upload_call_def upload_args_def)

lemma base_name_uploaded:
  "plain_name n \<Longrightarrow> base_name (sent_file (upload_call addr (path_join checkpoints_dir n))) = n"
  by (simp add: path_join_checkpoints_dir base_name_append plain_name_def)

lemma host_path_dummy_pod: "host_path (dummy_pod ns) (data_dir @ n) = Some (checkpoints_dir @ CHR ''/'' # n)"
  by (simp add: host_path_def dummy_pod_def data_dir_def checkpoints_dir_def podSpec0_def)

section \<open>The receiving side\<close>

definition disk_ok :: "upload_env \<Rightarrow> bool" where
  "disk_ok U \<longleftrightarrow> (\<forall>h f. up_open U h f = None \<and> up_create U h f = None \<and> up_copy U h f = None)"

lemma run_receive:
  assumes "disk_ok U"
  shows "run (receive U c) s =
    (Done (), s\<lparr>hist := hist s @ FormFile ''file'' # save_calls (base_name (sent_file c))\<rparr>)"
proof -
  have "equal_fold ''POST'' ''POST''" by code_simp
  then show ?thesis
    using assms by (simp add: receive_def file_handler_def handleFile_def save_upload_def disk_ok_def save_calls_def Let_def)
qed

lemma run_receive_all:
  "disk_ok U \<Longrightarrow> run (for_each (receive U) us) s =
     (Done (), s\<lparr>hist := hist s @ concat (map (\<lambda>c. FormFile ''file'' # save_calls (base_name (sent_file c))) us)\<rparr>)"
  by (induction us arbitrary: s) (simp_all add: run_receive)

lemma files_received_eq:
  assumes "disk_ok U"
  shows "files_received U us = map (\<lambda>c. data_dir @ base_name (sent_file c)) us"
proof -
  have "stored (concat (map (\<lambda>c. FormFile ''file'' # save_calls (base_name (sent_file c))) us)) =
      map (\<lambda>c. data_dir @ base_name (sent_file c)) us"
    by (induction us) (simp_all add: stored_def save_calls_def)
  then show ?thesis by (simp add: files_received_def run_receive_all [OF assms])
qed

lemma host_path_files_received:
  "disk_ok U \<Longrightarrow> map (host_path (dummy_pod ns)) (files_received U us) =
     map (\<lambda>c. Some (checkpoints_dir @ CHR ''/'' # base_name (sent_file c))) us"
  by (simp add: files_received_eq host_path_dummy_pod)

text \<open>What the receiving node lists: the delivered names, sorted as \<open>os.ReadDir\<close> sorts them.\<close>

definition delivered :: "upload_env \<Rightarrow> call list \<Rightarrow> dir_entry list" where
  "delivered U us = sort (remdups (map (\<lambda>p. DirEntry (base_name p)) (files_received U us)))"

lemma sorted_delivered:
  assumes "disk_ok U" and "mset us = mset (map (\<lambda>n. upload_call addr (path_join checkpoints_dir n)) ns)"
    and "list_all plain_name ns" and "sorted (map DirEntry ns)" and "distinct ns"
    and "\<forall>n\<in>set ns. DirEntry n < DirEntry ''dummy''"
  shows "delivered U (us @ [upload_call addr dummy_file]) = map DirEntry ns @ [DirEntry ''dummy'']"
proof -
  let ?b = "\<lambda>c. DirEntry (base_name (data_dir @ base_name (sent_file c)))"
  have b: "?b (upload_call addr (path_join checkpoints_dir n)) = DirEntry n" if "plain_name n" for n
    using that base_name_uploaded [OF that, of addr] base_name_append [of n "''/mnt/data''"]
    by (simp add: data_dir_def plain_name_def)
  have "dummy_file = path_join checkpoints_dir ''dummy''"
    by (simp add: path_join_checkpoints_dir plain_name_def) (simp add: dummy_file_def checkpoints_dir_def)
  then have d: "?b (upload_call addr dummy_file) = DirEntry ''dummy''"
    using b [of "''dummy''"] by (simp add: plain_name_def)
  have "mset (map ?b us) = mset (map ?b (map (\<lambda>n. upload_call addr (path_join checkpoints_dir n)) ns))"
    using assms(2) by (metis mset_map)
  also have "map ?b (map (\<lambda>n. upload_call addr (path_join checkpoints_dir n)) ns) = map DirEntry ns"
    using assms(3) b by (auto simp: list_all_iff)
  finally have m: "mset (map ?b us) = mset (map DirEntry ns)" .
  let ?l = "map DirEntry ns @ [DirEntry ''dummy'']"
  have dist: "distinct ?l" and srt: "sorted ?l"
    using assms(4-6) by (auto simp: distinct_map inj_on_def sorted_append less_imp_le)
  have "mset (map ?b us @ [DirEntry ''dummy'']) = mset ?l" using m by simp
  then have "distinct (map ?b us @ [DirEntry ''dummy''])" using dist by (metis mset_eq_imp_distinct_iff)
  then have "remdups (map ?b us @ [DirEntry ''dummy'']) = map ?b us @ [DirEntry ''dummy'']" by (rule distinct_remdups_id)
  moreover have "map (\<lambda>p. DirEntry (base_name p)) (files_received U (us @ [upload_call addr dummy_file])) =
      map ?b us @ [DirEntry ''dummy'']"
    using files_received_eq [OF assms(1)] d by (simp add: o_def)
  ultimately have "delivered U (us @ [upload_call addr dummy_file]) = sort (map ?b us @ [DirEntry ''dummy''])"
    by (simp only: delivered_def)
  also have "\<dots> = ?l"
    using \<open>mset (map ?b us @ [DirEntry ''dummy'']) = mset ?l\<close> srt by (intro properties_for_sort) simp_all
  finally show ?thesis .
qed

lemma kubelet_before_dummy: "DirEntry (kubelet_file k) < DirEntry ''dummy''"
  by (simp add: kubelet_file_def less_dir_entry_def less_list_code)

lemma delivered_archives:
  assumes "disk_ok U"
    and "mset us = mset (map (\<lambda>f. upload_call addr (path_join checkpoints_dir (entry_name f))) (map archive_entry ks))"
    and "list_all stored_archive ks" and "sorted (map archive_entry ks)" and "distinct (map kubelet_file ks)"
  shows "delivered U (us @ [upload_call addr dummy_file]) = map archive_entry ks @ [DirEntry ''dummy'']"
proof -
  have plain: "list_all plain_name (map kubelet_file ks)"
    using assms(3) by (auto simp: list_all_iff stored_archive_def kubelet_file_plain)
  have "delivered U (us @ [upload_call addr dummy_file]) = map DirEntry (map kubelet_file ks) @ [DirEntry ''dummy'']"
    using assms(2,4,5) plain
    by (intro sorted_delivered [OF assms(1), where addr = addr]) (auto simp: o_def kubelet_before_dummy)
  then show ?thesis by (simp add: o_def)
qed

section \<open>Properties\<close>

text \<open>C2: The uploads of a migration meet the file handler and the dummy pod. Whatever the
  schedule of the upload goroutines, the files that the file handler of the dummy pod writes
  under \<open>/mnt/data/\<close> are, through the pod's volume, the files of the checkpoint directory of the
  receiving node with the same paths as on the source node, each once, and the marker
  \<open>dummy\<close> is written after all of them.\<close>
theorem migration_delivers:
  assumes "service_at E ns addr" and "info_ok E" and "list_all (\<lambda>f. plain_name (entry_name f)) files" and "disk_ok U"
  shows "\<exists>s' us ps. run (MigrateCheckpointParallelized E files checkpoints_dir ns) s = (Done None, s')
    \<and> uploads (hist s') = uploads (hist s) @ us
    \<and> map (host_path (dummy_pod ns')) (files_received U us) = ps @ [Some dummy_file]
    \<and> mset ps = mset (map (\<lambda>f. Some (path_join checkpoints_dir (entry_name f))) files)"
proof -
  let ?u = "\<lambda>f. upload_call addr (path_join checkpoints_dir (entry_name f))"
  let ?p = "\<lambda>c. Some (checkpoints_dir @ CHR ''/'' # base_name (sent_file c))"
  obtain s' us where run: "run (MigrateCheckpointParallelized E files checkpoints_dir ns) s = (Done None, s')"
    and up: "uploads (hist s') = uploads (hist s) @ us @ [upload_call addr dummy_file]"
    and us: "mset us = mset (map ?u files)"
    using MigrateCheckpointParallelized_uploads [OF assms(1,2)] by blast
  have "mset (map ?p us) = mset (map ?p (map ?u files))" using us by (metis mset_map)
  also have "map ?p (map ?u files) = map (\<lambda>f. Some (path_join checkpoints_dir (entry_name f))) files"
    using assms(3) by (auto simp: list_all_iff base_name_append path_join_checkpoints_dir plain_name_def)
  finally have ps: "mset (map ?p us) = mset (map (\<lambda>f. Some (path_join checkpoints_dir (entry_name f))) files)" .
  have d: "checkpoints_dir @ CHR ''/'' # ''dummy'' = dummy_file" by (simp add: dummy_file_def checkpoints_dir_def)
  have "base_name dummy_file = ''dummy''"
    using base_name_append [of "''dummy''" checkpoints_dir] by (simp add: d del: append_Cons)
  then have "?p (upload_call addr dummy_file) = Some dummy_file" by (simp add: d)
  then have "map (host_path (dummy_pod ns')) (files_received U (us @ [upload_call addr dummy_file])) = map ?p us @ [Some dummy_file]"
    by (simp add: host_path_files_received [OF assms(4)])
  with run up ps show ?thesis by blast
qed

definition sample_disk :: upload_env where
  "sample_disk = \<lparr>up_formFile = \<lambda>h n. Inr [], up_open = \<lambda>h f. None, up_create = \<lambda>h f. None,
     up_copy = \<lambda>h f. None, up_close = \<lambda>h f. None\<rparr>"

lemma sample_disk_ok: "disk_ok sample_disk"
  by (simp add: disk_ok_def sample_disk_def)

theorem migration_delivers_witness:
  "\<exists>us ps. uploads (hist (snd (run (MigrateCheckpointParallelized sample_upload_env
      [DirEntry ''a''] checkpoints_dir ''test'') start))) = us
    \<and> map (host_path (dummy_pod ''test'')) (files_received sample_disk us) = ps @ [Some dummy_file]
    \<and> mset ps = {#Some (path_join checkpoints_dir ''a'')#}"
proof -
  have "list_all (\<lambda>f. plain_name (entry_name f)) [DirEntry ''a'']" by (simp add: plain_name_def)
  from migration_delivers [OF service_at_up [OF sample_upload_env_ok(1)] sample_upload_env_ok(2) this sample_disk_ok,
      where s = start and ns = "''test''" and ns' = "''test''"]
  show ?thesis by auto
qed

text \<open>C1: A whole migration with the sequential restore. When the checkpoint directory of the
  source holds archives that the kubelet wrote in 2024 for containers with exactly one dash in
  their names, everything is uploaded by the goroutines of \<open>MigrateCheckpointParallelized\<close>, stored by the
  file handler and listed on the receiving node, then \<open>BuildahRestore\<close> creates there one pod
  with the checkpointed pod's name and exactly the checkpointed containers, in directory order.\<close>
theorem migration_restores:
  assumes "service_at E ns addr" and "info_ok E" and "disk_ok U" and "commands_ok E'"
    and "list_all stored_archive ks" and "sorted (map archive_entry ks)" and "distinct (map kubelet_file ks)"
  shows "\<exists>s' us. run (MigrateCheckpointParallelized E (map archive_entry ks) checkpoints_dir ns) s = (Done None, s')
    \<and> uploads (hist s') = uploads (hist s) @ us
    \<and> (readDir E' (hist t) ''/checkpoints/'' = (delivered U us, None) \<longrightarrow>
        (\<exists>created t' h. run (BuildahRestore E' ''/checkpoints/'' ns') t = (Done (created, None), t')
          \<and> hist t' = h @ [PodsCreate ns' (restored_pod (if ks = [] then [] else ck_Pod (last ks)) ns'
              (map (\<lambda>k. restored_container (ck_Container k)) ks))]))"
proof -
  obtain s' us where run: "run (MigrateCheckpointParallelized E (map archive_entry ks) checkpoints_dir ns) s = (Done None, s')"
    and up: "uploads (hist s') = uploads (hist s) @ us @ [upload_call addr dummy_file]"
    and us: "mset us = mset (map (\<lambda>f. upload_call addr (path_join checkpoints_dir (entry_name f))) (map archive_entry ks))"
    using MigrateCheckpointParallelized_uploads [OF assms(1,2)] by blast
  have del: "delivered U (us @ [upload_call addr dummy_file]) = map archive_entry ks @ [DirEntry ''dummy'']"
    by (rule delivered_archives [OF assms(3) us assms(5-7)])
  show ?thesis
  proof (intro exI [of _ s'] exI [of _ "us @ [upload_call addr dummy_file]"] conjI impI run up)
    assume "readDir E' (hist t) ''/checkpoints/'' = (delivered U (us @ [upload_call addr dummy_file]), None)"
    then show "\<exists>created t' h. run (BuildahRestore E' ''/checkpoints/'' ns') t = (Done (created, None), t')
          \<and> hist t' = h @ [PodsCreate ns' (restored_pod (if ks = [] then [] else ck_Pod (last ks)) ns'
              (map (\<lambda>k. restored_container (ck_Container k)) ks))]"
      using del by (intro run_BuildahRestore [OF assms(4,5)]) simp
  qed
qed

theorem migration_restores_witness:
  "\<exists>s' us E'. run (MigrateCheckpointParallelized sample_upload_env [archive_entry sample_archive] checkpoints_dir ''test'') start
      = (Done None, s')
    \<and> uploads (hist s') = us \<and> readDir E' (hist start) ''/checkpoints/'' = (delivered sample_disk us, None)
    \<and> PodsCreate ''test'' (restored_pod ''web'' ''test'' [restored_container ''app-1''])
        \<in> set (hist (snd (run (BuildahRestore E' ''/checkpoints/'' ''test'') start)))"
proof -
  let ?M = "run (MigrateCheckpointParallelized sample_upload_env [archive_entry sample_archive] checkpoints_dir ''test'') start"
  let ?us = "uploads (hist (snd ?M))"
  let ?E = "env0\<lparr>readDir := \<lambda>h p. (delivered sample_disk ?us, None)\<rparr>"
  have "commands_ok ?E" by (simp add: commands_ok_def env0_def)
  moreover have "list_all stored_archive [sample_archive]" using sample_stored by simp
  ultimately obtain s' us where "?M = (Done None, s')" "uploads (hist s') = us"
    and "readDir ?E (hist start) ''/checkpoints/'' = (delivered sample_disk us, None) \<longrightarrow>
        (\<exists>created t' h. run (BuildahRestore ?E ''/checkpoints/'' ''test'') start = (Done (created, None), t')
          \<and> hist t' = h @ [PodsCreate ''test'' (restored_pod (ck_Pod sample_archive) ''test''
              [restored_container (ck_Container sample_archive)])])"
    using migration_restores [OF service_at_up [OF sample_upload_env_ok(1)] sample_upload_env_ok(2) sample_disk_ok,
        where E' = ?E and ks = "[sample_archive]" and s = start and t = start and ns = "''test''" and ns' = "''test''"]
    by auto
  then show ?thesis by (intro exI [of _ s'] exI [of _ us] exI [of _ ?E]) (auto simp: sample_archive_def)
qed








text \<open>C23: The readiness probe fits the file handler behind the dummy service. The service that
  \<open>CreateDummyService\<close> creates selects the pod that \<open>CreateDummyPod\<close> creates and forwards to
  the port its container opens, on which the file handler listens; and once the cluster has given it an address and the probe's
  request for \<open>/\<close> is answered by the file handler, \<open>WaitForServiceReady\<close> returns.\<close>
theorem dummy_service_probe:
  assumes "\<And>h. servicesGet E h ns ''dummy-service'' = (Some ((dummy_service ns)\<lparr>svc_ClusterIP := ip\<rparr>), None)"
    and "\<And>h. Done (ctx_Error (fst (execCmd E h Output [''curl'', service_url (ip, 80) ''/''])) 404) =
           fst (run (file_handler U ''/'' ''GET'') (\<lparr>hist = []\<rparr> :: file_call world))"
    and "0 < loopBound E"
  shows "(\<exists>sel labels. svc_Selector (dummy_service ns) = Some sel
      \<and> om_Labels (pod_Meta (dummy_pod ns)) = Some labels \<and> sel \<subseteq>\<^sub>m labels)
    \<and> (\<forall>(n, p, target) \<in> set (svc_Ports (dummy_service ns)).
         (\<exists>c \<in> set (ps_Containers (pod_Spec (dummy_pod ns))). (n, target) \<in> set (c_Ports c))
         \<and> fs_Addr file_server = '':'' @ show_int (sint target))
    \<and> (\<exists>s'. run (WaitForServiceReady E ''dummy-service'' ns) s = (Done (), s'))"
proof -
  have "service_up_after E ns (ip, 80) 0 0"
    using assms(1,2) by (auto simp: service_up_after_def dummy_service_def file_handler_def ctx_Error_def contains_iff)
  then have "\<exists>s'. run (WaitForServiceReady E ''dummy-service'' ns) s = (Done (), s')"
    by (rule run_WaitForServiceReady_up [OF _ assms(3)]) blast
  moreover have "show_int 8080 = ''8080''" by (simp add: show_int_def show_nat.simps char_of_def bit_0)
  ultimately show ?thesis by (simp add: dummy_service_def dummy_pod_def file_server_def)
qed

definition sample_probe_env :: env where
  "sample_probe_env = env0\<lparr>
     servicesGet := \<lambda>h ns n. (Some ((dummy_service ns)\<lparr>svc_ClusterIP := ''10.0.0.7''\<rparr>), None),
     execCmd := \<lambda>h m args. (''not found'', None), loopBound := 1\<rparr>"

theorem dummy_service_probe_witness:
  "\<exists>s'. run (WaitForServiceReady sample_probe_env ''dummy-service'' ''test'') start = (Done (), s')"
proof -
  have "servicesGet sample_probe_env h ''test'' ''dummy-service'' =
      (Some ((dummy_service ''test'')\<lparr>svc_ClusterIP := ''10.0.0.7''\<rparr>), None)" for h
    by (simp add: sample_probe_env_def)
  moreover have "Done (ctx_Error (fst (execCmd sample_probe_env h Output [''curl'', service_url (''10.0.0.7'', 80) ''/''])) 404) =
      fst (run (file_handler sample_disk ''/'' ''GET'') (\<lparr>hist = []\<rparr> :: file_call world))" for h
    by (simp add: sample_probe_env_def file_handler_def)
  moreover have "0 < loopBound sample_probe_env" by (simp add: sample_probe_env_def)
  ultimately show ?thesis using dummy_service_probe [where s = start] by blast
qed

end
